theory Spec2Isabelle
  imports Complex_Main
begin

section \<open>Strings, quotes and the quote store\<close>

text \<open>
  A JavaScript string is a sequence of UTF-16 code units; a code unit is a natural number.
  \<open>js\<close> writes a string whose characters lie below 256 from its characters.
\<close>

type_synonym jsstring = "nat list"

definition js :: "string \<Rightarrow> jsstring" where
  "js s = map of_char s"

text \<open>
  A quote is the object \<^verbatim>\<open>{ text, category }\<close> of \<^verbatim>\<open>script.js\<close>. The record is
  polymorphic in the type of the category: the reconciliation code compares categories
  as strings, where \<open>None\<close> stands for a missing (\<^verbatim>\<open>undefined\<close>) property, while
  \<^verbatim>\<open>loadQuotes\<close> copies whatever truthy JSON value the persisted item holds.
  The store is the global array \<^verbatim>\<open>quotes\<close>, in insertion order.
\<close>

record 'c quote =
  text_of :: jsstring
  category_of :: 'c

type_synonym local_quote = "jsstring option quote"

text \<open>
  \<^verbatim>\<open>String.prototype.trim\<close> removes white space and line terminators from both
  ends: TAB, LF, VT, FF, CR, SPACE, NBSP, U+1680, U+2000 to U+200A, U+2028, U+2029,
  U+202F, U+205F, U+3000 and U+FEFF. Each is one code unit.
\<close>

definition is_space :: "nat \<Rightarrow> bool" where
  "is_space c \<longleftrightarrow>
     (if c < 256 then c \<in> {9, 10, 11, 12, 13, 32, 160}
      else c \<in> {5760, 8232, 8233, 8239, 8287, 12288, 65279} \<or> (8192 \<le> c \<and> c \<le> 8202))"

definition trim :: "jsstring \<Rightarrow> jsstring" where
  "trim s = rev (dropWhile is_space (rev (dropWhile is_space s)))"

text \<open>
  \<^verbatim>\<open>String.prototype.toLowerCase\<close>. Below 256 the upper-case letters are A to Z
  and U+00C0 to U+00DE without the multiplication sign U+00D7; each maps to the code
  unit 32 above it, and a string of code units below 256 is mapped unit by unit. The
  result on a string with a code unit from 256 on is given by the Unicode tables of the
  engine, which are not part of the repository: it is the parameter \<open>lc\<close>.
\<close>

definition lower_latin1 :: "nat \<Rightarrow> nat" where
  "lower_latin1 n =
     (if (65 \<le> n \<and> n \<le> 90) \<or> (192 \<le> n \<and> n \<le> 222 \<and> n \<noteq> 215) then n + 32 else n)"

definition toLowerCase :: "(jsstring \<Rightarrow> jsstring) \<Rightarrow> jsstring \<Rightarrow> jsstring" where
  "toLowerCase lc s = (if list_all (\<lambda>c. c < 256) s then map lower_latin1 s else lc s)"

text \<open>
  \<^verbatim>\<open>function normalizeText(t) { return String(t || '').trim().toLowerCase(); }\<close>
  On a string \<open>t\<close> the expression \<^verbatim>\<open>String(t || '')\<close> is \<open>t\<close> itself (the empty
  string is the only falsy string, and it is replaced by the empty string).
\<close>

definition normalizeText :: "(jsstring \<Rightarrow> jsstring) \<Rightarrow> jsstring \<Rightarrow> jsstring" where
  "normalizeText lc t = toLowerCase lc (trim t)"

text \<open>
  The expression \<^verbatim>\<open>c || 'Uncategorized'\<close> on a category that is a string or missing:
  a missing category and the empty string are falsy.
\<close>

definition orUncategorized :: "jsstring option \<Rightarrow> jsstring" where
  "orUncategorized c =
     (case c of None \<Rightarrow> js ''Uncategorized''
      | Some s \<Rightarrow> if s = [] then js ''Uncategorized'' else s)"

text \<open>The join key of a quote, and the object that the merge appends for a remote record.\<close>

abbreviation key_of :: "(jsstring \<Rightarrow> jsstring) \<Rightarrow> 'c quote \<Rightarrow> jsstring" where
  "key_of lc q \<equiv> normalizeText lc (text_of q)"

abbreviation server_copy :: "local_quote \<Rightarrow> local_quote" where
  "server_copy sq \<equiv>
     \<lparr>text_of = text_of sq, category_of = Some (orUncategorized (category_of sq))\<rparr>"

section \<open>The application state and its effects\<close>

text \<open>
  The summary \<^verbatim>\<open>details\<close> that \<^verbatim>\<open>mergeWithServer\<close> returns.
\<close>

record details =
  added :: nat
  updated :: nat
  conflictsResolved :: nat

text \<open>
  What the sync code does outside the array \<^verbatim>\<open>quotes\<close> is recorded, in order, as
  a list of effects: the write of the quote collection to \<^verbatim>\<open>localStorage\<close>
  (\<^verbatim>\<open>saveQuotes\<close>, with the array it serialises), the rebuild of the category
  select (\<^verbatim>\<open>populateCategories\<close>, with the categories it derives), the write of the
  last-sync time, the text put into the status element and the notification.
\<close>

datatype status = Syncing | LastSync nat nat | SyncFailed

datatype effect =
    SaveQuotes "local_quote list"
  | PopulateCategories "jsstring list"
  | SetLastSyncTime
  | SetStatus status
  | ShowSyncNotification details

record app =
  quotes :: "local_quote list"
  effects :: "effect list"

definition emit :: "effect \<Rightarrow> app \<Rightarrow> app" where
  "emit e w = w\<lparr>effects := effects w @ [e]\<rparr>"

text \<open>
  \<^verbatim>\<open>saveQuotes\<close> calls \<^verbatim>\<open>localStorage.setItem(STORAGE_KEY, JSON.stringify(quotes))\<close>
  and only logs a failure of the write.
\<close>

definition saveQuotes :: "app \<Rightarrow> app" where
  "saveQuotes w = emit (SaveQuotes (quotes w)) w"

text \<open>
  \<^verbatim>\<open>populateCategories\<close> derives
  \<^verbatim>\<open>Array.from(new Set(quotes.map(q => q.category || 'Uncategorized')))\<close>, the distinct
  categories in order of first occurrence, and sorts them for the select element (when
  that element exists); the effect records the call with the distinct categories before
  the sort. After it has rebuilt the select, the function reads the saved filter with
  \<^verbatim>\<open>localStorage.getItem\<close> outside any try; when that read throws, the exception
  leaves \<^verbatim>\<open>populateCategories\<close> and its caller \<^verbatim>\<open>mergeWithServer\<close> (see
  \<open>populateCategories_throws\<close> and \<open>doSync\<close> below).
\<close>

fun distinct_first :: "'a list \<Rightarrow> 'a list \<Rightarrow> 'a list" where
  "distinct_first seen [] = rev seen"
| "distinct_first seen (x # xs) =
     (if x \<in> set seen then distinct_first seen xs else distinct_first (x # seen) xs)"

definition populateCategories :: "app \<Rightarrow> app" where
  "populateCategories w =
     emit (PopulateCategories
       (distinct_first [] (map (\<lambda>q. orUncategorized (category_of q)) (quotes w)))) w"

section \<open>Reconciliation: mergeWithServer\<close>

text \<open>
  The map \<^verbatim>\<open>localMap\<close> is filled by
  \<^verbatim>\<open>quotes.forEach((q, idx) => { localMap.set(normalizeText(q.text), { q, idx }); })\<close>.
  Its value \<^verbatim>\<open>{ q, idx }\<close> holds a reference to the object \<^verbatim>\<open>quotes[idx]\<close>; the
  array is never reordered or shortened during a merge, so \<^verbatim>\<open>localEntry.q\<close> and
  \<^verbatim>\<open>quotes[localEntry.idx]\<close> are the same object throughout and the model keeps
  the index only.
\<close>

definition localMap_of :: "(jsstring \<Rightarrow> jsstring) \<Rightarrow> 'c quote list \<Rightarrow> (jsstring \<rightharpoonup> nat)" where
  "localMap_of lc qs =
     fold (\<lambda>(idx, q) m. m(normalizeText lc (text_of q) \<mapsto> idx)) (enumerate 0 qs) Map.empty"

text \<open>
  The body of \<^verbatim>\<open>serverQuotes.forEach(sq => { ... })\<close>, on the current array and
  the current counters. The map is the one built before the loop; it is not extended
  when a record is appended. An index it holds is below the length of the array at every
  step (lemma \<open>merge_loop_index_in_range\<close>), so \<open>qs ! idx\<close> is always a read in range.
\<close>

definition merge_record ::
  "(jsstring \<Rightarrow> jsstring) \<Rightarrow> (jsstring \<rightharpoonup> nat) \<Rightarrow> local_quote \<Rightarrow>
   local_quote list \<times> details \<Rightarrow> local_quote list \<times> details"
where
  "merge_record lc localMap sq s =
     (let qs = fst s; d = snd s; key = normalizeText lc (text_of sq)
      in if key = [] then s
         else case localMap key of
           Some idx \<Rightarrow>
             if orUncategorized (category_of (qs ! idx)) \<noteq> orUncategorized (category_of sq)
             then (qs[idx := (qs ! idx)\<lparr>category_of := Some (orUncategorized (category_of sq))\<rparr>],
                   d\<lparr>updated := updated d + 1, conflictsResolved := conflictsResolved d + 1\<rparr>)
             else s
         | None \<Rightarrow>
             (qs @ [\<lparr>text_of = text_of sq, category_of = Some (orUncategorized (category_of sq))\<rparr>],
              d\<lparr>added := added d + 1\<rparr>))"

text \<open>A remote record is new when its key is not empty and the local map has no entry for it.\<close>

abbreviation is_new ::
  "(jsstring \<Rightarrow> jsstring) \<Rightarrow> (jsstring \<rightharpoonup> nat) \<Rightarrow> local_quote \<Rightarrow> bool" where
  "is_new lc lm r \<equiv> key_of lc r \<noteq> [] \<and> lm (key_of lc r) = None"

definition no_details :: details where
  "no_details = \<lparr>added = 0, updated = 0, conflictsResolved = 0\<rparr>"

definition merge_loop ::
  "(jsstring \<Rightarrow> jsstring) \<Rightarrow> local_quote list \<Rightarrow> local_quote list \<Rightarrow> local_quote list \<times> details" where
  "merge_loop lc serverQuotes qs =
     fold (merge_record lc (localMap_of lc qs)) serverQuotes (qs, no_details)"

text \<open>
  \<^verbatim>\<open>mergeWithServer(serverQuotes)\<close>, when it returns. The fire-and-forget loop that
  posts local-only quotes to the server only reads the array and the snapshot and sends
  requests whose answers are dropped; it writes neither the array, the counters nor
  \<^verbatim>\<open>localStorage\<close>, and it is not part of the model.
\<close>

definition mergeWithServer ::
  "(jsstring \<Rightarrow> jsstring) \<Rightarrow> local_quote list \<Rightarrow> app \<Rightarrow> details \<times> app" where
  "mergeWithServer lc serverQuotes w =
     (let s = merge_loop lc serverQuotes (quotes w);
          w1 = w\<lparr>quotes := fst s\<rparr>;
          d = snd s
      in (d, if added d \<noteq> 0 \<or> updated d \<noteq> 0
             then populateCategories (saveQuotes w1) else w1))"

section \<open>A sync cycle: fetchServerQuotes and doSync\<close>

text \<open>
  The values \<^verbatim>\<open>JSON.parse\<close> and \<^verbatim>\<open>res.json()\<close> produce. The list of an object
  holds its own properties, each name once. A number is the number the parser produced.
\<close>

datatype jsval =
    JNull
  | JBool bool
  | JNum rat
  | JStr jsstring
  | JArr "jsval list"
  | JObj "(jsstring \<times> jsval) list"

fun truthy :: "jsval \<Rightarrow> bool" where
  "truthy JNull = False"
| "truthy (JBool b) = b"
| "truthy (JNum n) = (n \<noteq> 0)"
| "truthy (JStr s) = (s \<noteq> [])"
| "truthy (JArr xs) = True"
| "truthy (JObj fs) = True"

text \<open>
  Reading one of the properties \<^verbatim>\<open>text\<close>, \<^verbatim>\<open>category\<close>, \<^verbatim>\<open>title\<close> and
  \<^verbatim>\<open>userId\<close> of a value that is not \<^verbatim>\<open>null\<close>: \<open>None\<close> is \<^verbatim>\<open>undefined\<close>. Only an
  object has such a property. Reading a property of \<^verbatim>\<open>null\<close> throws; the callers
  below test for it first.
\<close>

fun js_prop :: "jsval \<Rightarrow> jsstring \<Rightarrow> jsval option" where
  "js_prop (JObj fs) name = map_of fs name"
| "js_prop v name = None"

datatype error = FetchRejected | ResponseNotOk | JsonRejected | TypeError | SyntaxError

text \<open>
  \<^verbatim>\<open>String(v)\<close> and the conversion inside a template literal. On a string it is
  the string itself. On the other values (numbers, booleans, \<^verbatim>\<open>null\<close>, arrays,
  objects) it is the parameter \<open>toStr\<close>, which gives the string, or the
  \<^verbatim>\<open>TypeError\<close> that the conversion throws (an object whose \<^verbatim>\<open>toString\<close> and
  \<^verbatim>\<open>valueOf\<close> give no primitive, as the parsed \<^verbatim>\<open>{"toString": 1}\<close>).
\<close>

definition js_String :: "(jsval \<Rightarrow> error + jsstring) \<Rightarrow> jsval \<Rightarrow> error + jsstring" where
  "js_String toStr v = (case v of JStr s \<Rightarrow> Inr s | _ \<Rightarrow> toStr v)"

text \<open>
  What the network gives to \<^verbatim>\<open>fetchServerQuotes\<close>: the promise of \<^verbatim>\<open>fetch\<close> is
  rejected, or it yields a response with its \<^verbatim>\<open>ok\<close> flag and the result of
  \<^verbatim>\<open>res.json()\<close> (\<open>None\<close> when the body is not JSON and the promise is rejected).
\<close>

datatype response = NetworkFailure | Response bool "jsval option"

text \<open>
  \<^verbatim>\<open>p => ({ text: String(p.title || '').trim(), category: `Server-${p.userId}` })\<close>
  for a post \<open>p\<close> that is not \<^verbatim>\<open>null\<close>: the text is converted first, then the
  template; either conversion can throw.
\<close>

definition post_to_quote :: "(jsval \<Rightarrow> error + jsstring) \<Rightarrow> jsval \<Rightarrow> error + local_quote" where
  "post_to_quote toStr p =
     (case (case js_prop p (js ''title'') of
              None \<Rightarrow> Inr []
            | Some t \<Rightarrow> if truthy t then js_String toStr t else Inr []) of
        Inl err \<Rightarrow> Inl err
      | Inr title \<Rightarrow>
          (case (case js_prop p (js ''userId'') of
                   None \<Rightarrow> Inr (js ''undefined'')
                 | Some u \<Rightarrow> js_String toStr u) of
             Inl err \<Rightarrow> Inl err
           | Inr userId \<Rightarrow>
               Inr \<lparr>text_of = trim title, category_of = Some (js ''Server-'' @ userId)\<rparr>))"

text \<open>
  \<^verbatim>\<open>data.map(p => ...)\<close> on an array: the posts are converted in order, and the
  first exception (the \<^verbatim>\<open>TypeError\<close> of \<^verbatim>\<open>p.title\<close> on a \<^verbatim>\<open>null\<close> post, or of a
  conversion) ends the call.
\<close>

fun map_posts :: "(jsval \<Rightarrow> error + jsstring) \<Rightarrow> jsval list \<Rightarrow> error + local_quote list" where
  "map_posts toStr [] = Inr []"
| "map_posts toStr (p # ps) =
     (if p = JNull then Inl TypeError
      else case post_to_quote toStr p of
        Inl err \<Rightarrow> Inl err
      | Inr q \<Rightarrow> (case map_posts toStr ps of Inl err \<Rightarrow> Inl err | Inr qs \<Rightarrow> Inr (q # qs)))"

text \<open>
  \<^verbatim>\<open>fetchServerQuotes\<close> rethrows whatever its try block throws: the rejected fetch,
  \<^verbatim>\<open>Error('Network response not ok')\<close>, the rejected \<^verbatim>\<open>res.json()\<close>, the
  \<^verbatim>\<open>TypeError\<close> of \<^verbatim>\<open>data.map\<close> on a payload that is not an array, and the
  exceptions of the conversion of the posts.
\<close>

definition fetchServerQuotes ::
  "(jsval \<Rightarrow> error + jsstring) \<Rightarrow> response \<Rightarrow> error + local_quote list" where
  "fetchServerQuotes toStr r =
     (case r of
        NetworkFailure \<Rightarrow> Inl FetchRejected
      | Response ok body \<Rightarrow>
          if \<not> ok then Inl ResponseNotOk
          else case body of
            None \<Rightarrow> Inl JsonRejected
          | Some data \<Rightarrow>
              (case data of
                 JArr ps \<Rightarrow> map_posts toStr ps
               | _ \<Rightarrow> Inl TypeError))"

text \<open>
  The page around \<^verbatim>\<open>doSync\<close>: whether the element \<^verbatim>\<open>#syncStatus\<close> exists, whether
  the select \<^verbatim>\<open>#categoryFilter\<close> exists, and whether reading \<^verbatim>\<open>localStorage\<close>
  throws.
\<close>

record env =
  statusEl :: bool
  categoryFilter :: bool
  getItemThrows :: bool

text \<open>
  \<^verbatim>\<open>populateCategories\<close> returns at once when the select does not exist; otherwise
  it rebuilds the select and then reads \<^verbatim>\<open>localStorage.getItem(CATEGORY_FILTER_KEY)\<close>
  outside any try. That read is the one statement after a successful fetch whose
  exception reaches the catch block of \<^verbatim>\<open>doSync\<close>.
\<close>

definition populateCategories_throws :: "env \<Rightarrow> bool" where
  "populateCategories_throws e \<longleftrightarrow> categoryFilter e \<and> getItemThrows e"

definition setStatus :: "env \<Rightarrow> status \<Rightarrow> app \<Rightarrow> app" where
  "setStatus e st w = (if statusEl e then emit (SetStatus st) w else w)"

text \<open>
  \<^verbatim>\<open>doSync(showNotification)\<close>. The result \<open>None\<close> is the \<^verbatim>\<open>null\<close> of the catch
  block. The try block covers the fetch and the merge: when \<^verbatim>\<open>mergeWithServer\<close> has
  changed the array, has saved it and \<^verbatim>\<open>populateCategories\<close> then throws, the catch
  block runs on the merged state.
\<close>

definition doSync ::
  "(jsstring \<Rightarrow> jsstring) \<Rightarrow> bool \<Rightarrow> env \<Rightarrow> (jsval \<Rightarrow> error + jsstring) \<Rightarrow> response \<Rightarrow> app \<Rightarrow>
   details option \<times> app" where
  "doSync lc showNotification e toStr r w =
     (let w1 = setStatus e Syncing w
      in case fetchServerQuotes toStr r of
           Inl err \<Rightarrow> (None, setStatus e SyncFailed w1)
         | Inr serverQuotes \<Rightarrow>
             (let m = mergeWithServer lc serverQuotes w1;
                  d = fst m
              in if (added d \<noteq> 0 \<or> updated d \<noteq> 0) \<and> populateCategories_throws e
                 then (None, setStatus e SyncFailed (snd m))
                 else
                   (let w2 = emit SetLastSyncTime (snd m);
                        w3 = setStatus e (LastSync (added d) (updated d)) w2;
                        w4 = (if showNotification \<and>
                                 (added d \<noteq> 0 \<or> updated d \<noteq> 0 \<or> conflictsResolved d \<noteq> 0)
                              then emit (ShowSyncNotification d) w3 else w3)
                    in (Some d, w4))))"

section \<open>Loading the persisted quotes: loadQuotes\<close>

text \<open>
  What \<^verbatim>\<open>localStorage.getItem(STORAGE_KEY)\<close> and \<^verbatim>\<open>JSON.parse\<close> make of the
  persisted item: no item (\<^verbatim>\<open>null\<close>), the empty string, a string that
  \<^verbatim>\<open>JSON.parse\<close> rejects with a \<^verbatim>\<open>SyntaxError\<close>, or a string that parses to a value.
\<close>

datatype item = NoItem | EmptyItem | Unparsable | Parsed jsval

text \<open>
  \<^verbatim>\<open>q.category || 'Uncategorized'\<close> on a parsed entry: every truthy value is kept
  as it is.
\<close>

definition category_or_default :: "jsval option \<Rightarrow> jsval" where
  "category_or_default c =
     (case c of None \<Rightarrow> JStr (js ''Uncategorized'')
      | Some v \<Rightarrow> if truthy v then v else JStr (js ''Uncategorized''))"

text \<open>
  The callback of \<^verbatim>\<open>parsed.forEach\<close>: what one entry pushes onto the array.
  The test is \<^verbatim>\<open>q && typeof q.text === 'string'\<close>.
\<close>

definition load_entry :: "jsval \<Rightarrow> jsval quote list" where
  "load_entry q =
     (if truthy q
      then (case js_prop q (js ''text'') of
              Some (JStr t) \<Rightarrow>
                [\<lparr>text_of = t, category_of = category_or_default (js_prop q (js ''category''))\<rparr>]
            | _ \<Rightarrow> [])
      else [])"

text \<open>
  \<^verbatim>\<open>loadQuotes\<close> of the variant without try and catch (the source file of the
  variant with \<^verbatim>\<open>syncWithServer\<close>): its statements are those inside the try block of
  \<^verbatim>\<open>loadQuotes\<close> of \<^verbatim>\<open>script.js\<close>. \<open>Inl\<close> is the exception that leaves the
  function, \<open>Inr\<close> the array when it returns. \<^verbatim>\<open>quotes.length = 0\<close> empties the
  array before the valid entries are pushed.
\<close>

definition loadQuotes_unguarded :: "item \<Rightarrow> jsval quote list \<Rightarrow> error + jsval quote list" where
  "loadQuotes_unguarded it qs =
     (case it of
        NoItem \<Rightarrow> Inr qs
      | EmptyItem \<Rightarrow> Inr qs
      | Unparsable \<Rightarrow> Inl SyntaxError
      | Parsed parsed \<Rightarrow>
          (case parsed of
             JArr entries \<Rightarrow> Inr (concat (map load_entry entries))
           | _ \<Rightarrow> Inr qs))"

text \<open>
  \<^verbatim>\<open>loadQuotes\<close> of \<^verbatim>\<open>script.js\<close>: the same statements in a try block; the catch
  block logs the error and returns. The only statement that can throw runs before the
  array is touched, so the array is then the one before the call.
\<close>

definition loadQuotes :: "item \<Rightarrow> jsval quote list \<Rightarrow> error + jsval quote list" where
  "loadQuotes it qs =
     (case loadQuotes_unguarded it qs of Inl err \<Rightarrow> Inr qs | Inr qs' \<Rightarrow> Inr qs')"

section \<open>Properties of the local map\<close>

lemma localMap_of_snoc:
  "localMap_of lc (qs @ [q]) = (localMap_of lc qs)(key_of lc q \<mapsto> length qs)"
  by (simp add: localMap_of_def enumerate_append_eq)

lemma localMap_of_Nil: "localMap_of lc [] = Map.empty"
  by (simp add: localMap_of_def)

lemma localMap_of_None: "localMap_of lc qs k = None \<longleftrightarrow> k \<notin> key_of lc ` set qs"
  by (induction qs rule: rev_induct) (auto simp: localMap_of_snoc localMap_of_Nil)

lemma localMap_of_SomeD:
  "localMap_of lc qs k = Some i \<Longrightarrow>
     i < length qs \<and> key_of lc (qs ! i) = k \<and> (\<forall>j. i < j \<and> j < length qs \<longrightarrow> key_of lc (qs ! j) \<noteq> k)"
proof (induction qs rule: rev_induct)
  case Nil
  then show ?case by (simp add: localMap_of_Nil)
next
  case (snoc q qs)
  show ?case
  proof (cases "key_of lc q = k")
    case True
    then have "i = length qs" using snoc.prems by (simp add: localMap_of_snoc)
    then show ?thesis using True by auto
  next
    case False
    then have "localMap_of lc qs k = Some i" using snoc.prems by (simp add: localMap_of_snoc)
    then have ih: "i < length qs" "key_of lc (qs ! i) = k"
      "\<And>j. i < j \<Longrightarrow> j < length qs \<Longrightarrow> key_of lc (qs ! j) \<noteq> k"
      using snoc.IH by simp_all
    have "key_of lc ((qs @ [q]) ! j) \<noteq> k" if "i < j" "j < length (qs @ [q])" for j
    proof (cases "j < length qs")
      case True
      then show ?thesis using ih(3) [OF that(1)] by (simp add: nth_append)
    next
      case nl: False
      then have "j = length qs" using that(2) by simp
      then show ?thesis using False by simp
    qed
    then show ?thesis using ih(1,2) by (simp add: nth_append)
  qed
qed

lemma localMap_of_Some:
  "localMap_of lc qs k = Some i \<longleftrightarrow>
     i < length qs \<and> key_of lc (qs ! i) = k \<and> (\<forall>j. i < j \<and> j < length qs \<longrightarrow> key_of lc (qs ! j) \<noteq> k)"
proof
  assume "localMap_of lc qs k = Some i"
  then show "i < length qs \<and> key_of lc (qs ! i) = k \<and>
             (\<forall>j. i < j \<and> j < length qs \<longrightarrow> key_of lc (qs ! j) \<noteq> k)"
    by (rule localMap_of_SomeD)
next
  assume r: "i < length qs \<and> key_of lc (qs ! i) = k \<and>
             (\<forall>j. i < j \<and> j < length qs \<longrightarrow> key_of lc (qs ! j) \<noteq> k)"
  then have "k \<in> key_of lc ` set qs" by (metis imageI nth_mem)
  then obtain i' where i': "localMap_of lc qs k = Some i'"
    using localMap_of_None [of lc qs k] by (cases "localMap_of lc qs k") simp_all
  note d = localMap_of_SomeD [OF i']
  have "\<not> i < i'" using r d by blast
  moreover have "\<not> i' < i" using r d by blast
  ultimately have "i' = i" by simp
  then show "localMap_of lc qs k = Some i" using i' by simp
qed

lemma localMap_of_bound: "localMap_of lc qs k = Some i \<Longrightarrow> i < length qs"
  by (simp add: localMap_of_Some)

lemma localMap_of_inj: "localMap_of lc qs k = Some i \<Longrightarrow> localMap_of lc qs k' = Some i \<Longrightarrow> k = k'"
  by (auto simp: localMap_of_Some)

section \<open>Properties of one step and of the loop of the merge\<close>

lemma js_Nil [simp]: "js [] = []"
  by (simp add: js_def)

lemma js_Cons_nonempty [simp]: "js (c # s) \<noteq> []"
  by (simp add: js_def)

lemma js_eq_iff [simp]: "js s = js t \<longleftrightarrow> s = t"
  by (simp add: js_def inj_map_eq_map inj_on_def)

lemma orUncategorized_nonempty: "orUncategorized c \<noteq> []"
  by (simp add: orUncategorized_def split: option.splits)

lemma orUncategorized_idem: "orUncategorized (Some (orUncategorized c)) = orUncategorized c"
  by (simp add: orUncategorized_def split: option.splits)

lemma merge_record_skip: "key_of lc sq = [] \<Longrightarrow> merge_record lc lm sq s = s"
  by (simp add: merge_record_def)

lemma merge_record_add:
  "key_of lc sq \<noteq> [] \<Longrightarrow> lm (key_of lc sq) = None \<Longrightarrow>
   merge_record lc lm sq s = (fst s @ [server_copy sq], (snd s)\<lparr>added := added (snd s) + 1\<rparr>)"
  by (simp add: merge_record_def Let_def)

lemma merge_record_same:
  "key_of lc sq \<noteq> [] \<Longrightarrow> lm (key_of lc sq) = Some i \<Longrightarrow>
   orUncategorized (category_of (fst s ! i)) = orUncategorized (category_of sq) \<Longrightarrow>
   merge_record lc lm sq s = s"
  by (simp add: merge_record_def)

lemma merge_record_upd:
  "key_of lc sq \<noteq> [] \<Longrightarrow> lm (key_of lc sq) = Some i \<Longrightarrow>
   orUncategorized (category_of (fst s ! i)) \<noteq> orUncategorized (category_of sq) \<Longrightarrow>
   merge_record lc lm sq s =
     ((fst s)[i := (fst s ! i)\<lparr>category_of := Some (orUncategorized (category_of sq))\<rparr>],
      (snd s)\<lparr>updated := updated (snd s) + 1, conflictsResolved := conflictsResolved (snd s) + 1\<rparr>)"
  by (simp add: merge_record_def Let_def)

lemma merge_record_cases:
  obtains (skip) "key_of lc sq = []" "merge_record lc lm sq s = s"
  | (add) "key_of lc sq \<noteq> []" "lm (key_of lc sq) = None"
      "merge_record lc lm sq s = (fst s @ [server_copy sq], (snd s)\<lparr>added := added (snd s) + 1\<rparr>)"
  | (same) i where "key_of lc sq \<noteq> []" "lm (key_of lc sq) = Some i"
      "orUncategorized (category_of (fst s ! i)) = orUncategorized (category_of sq)"
      "merge_record lc lm sq s = s"
  | (upd) i where "key_of lc sq \<noteq> []" "lm (key_of lc sq) = Some i"
      "orUncategorized (category_of (fst s ! i)) \<noteq> orUncategorized (category_of sq)"
      "merge_record lc lm sq s =
         ((fst s)[i := (fst s ! i)\<lparr>category_of := Some (orUncategorized (category_of sq))\<rparr>],
          (snd s)\<lparr>updated := updated (snd s) + 1, conflictsResolved := conflictsResolved (snd s) + 1\<rparr>)"
proof (cases "key_of lc sq = []")
  case True
  then show ?thesis using skip merge_record_skip by blast
next
  case False
  show ?thesis
  proof (cases "lm (key_of lc sq)")
    case None
    then show ?thesis using False add merge_record_add by blast
  next
    case (Some i)
    show ?thesis
    proof (cases "orUncategorized (category_of (fst s ! i)) = orUncategorized (category_of sq)")
      case True
      then show ?thesis using False Some same merge_record_same by blast
    next
      case neq: False
      then show ?thesis using False Some upd [of i] merge_record_upd [of lc sq lm i s] by blast
    qed
  qed
qed

text \<open>The two conflict counters move together.\<close>

lemma merge_record_coupled:
  "updated (snd s) = conflictsResolved (snd s) \<Longrightarrow>
   updated (snd (merge_record lc lm sq s)) = conflictsResolved (snd (merge_record lc lm sq s))"
  by (cases rule: merge_record_cases [of lc sq lm s]) simp_all

lemma fold_merge_coupled:
  "updated (snd s) = conflictsResolved (snd s) \<Longrightarrow>
   updated (snd (fold (merge_record lc lm) sqs s)) = conflictsResolved (snd (fold (merge_record lc lm) sqs s))"
  by (induction sqs arbitrary: s) (simp_all add: merge_record_coupled)

text \<open>A step that leaves both counters alone leaves the whole state alone.\<close>

lemma merge_record_mono:
  "added (snd s) \<le> added (snd (merge_record lc lm sq s)) \<and>
   updated (snd s) \<le> updated (snd (merge_record lc lm sq s))"
  by (cases rule: merge_record_cases [of lc sq lm s]) simp_all

lemma merge_record_unchanged:
  "added (snd (merge_record lc lm sq s)) = added (snd s) \<Longrightarrow>
   updated (snd (merge_record lc lm sq s)) = updated (snd s) \<Longrightarrow>
   merge_record lc lm sq s = s"
  by (cases rule: merge_record_cases [of lc sq lm s]) simp_all

lemma fold_merge_mono:
  "added (snd s) \<le> added (snd (fold (merge_record lc lm) sqs s)) \<and>
   updated (snd s) \<le> updated (snd (fold (merge_record lc lm) sqs s))"
proof (induction sqs arbitrary: s)
  case Nil
  show ?case by simp
next
  case (Cons sq sqs)
  have a: "added (snd s) \<le> added (snd (merge_record lc lm sq s))"
    and u: "updated (snd s) \<le> updated (snd (merge_record lc lm sq s))"
    using merge_record_mono [of s lc lm sq] by simp_all
  have a': "added (snd (merge_record lc lm sq s)) \<le> added (snd (fold (merge_record lc lm) (sq # sqs) s))"
    and u': "updated (snd (merge_record lc lm sq s)) \<le> updated (snd (fold (merge_record lc lm) (sq # sqs) s))"
    using Cons [of "merge_record lc lm sq s"] by simp_all
  show ?case using le_trans [OF a a'] le_trans [OF u u'] by simp
qed

lemma fold_merge_unchanged:
  "added (snd (fold (merge_record lc lm) sqs s)) = added (snd s) \<Longrightarrow>
   updated (snd (fold (merge_record lc lm) sqs s)) = updated (snd s) \<Longrightarrow>
   fold (merge_record lc lm) sqs s = s"
proof (induction sqs arbitrary: s)
  case Nil
  show ?case by simp
next
  case (Cons sq sqs)
  let ?s1 = "merge_record lc lm sq s"
  have m1: "added (snd s) \<le> added (snd ?s1)" "updated (snd s) \<le> updated (snd ?s1)"
    using merge_record_mono [of s lc lm sq] by simp_all
  have m2: "added (snd ?s1) \<le> added (snd (fold (merge_record lc lm) sqs ?s1))"
           "updated (snd ?s1) \<le> updated (snd (fold (merge_record lc lm) sqs ?s1))"
    using fold_merge_mono [of ?s1 lc lm sqs] by simp_all
  have e: "added (snd (fold (merge_record lc lm) sqs ?s1)) = added (snd s)"
          "updated (snd (fold (merge_record lc lm) sqs ?s1)) = updated (snd s)"
    using Cons.prems by simp_all
  have a: "added (snd ?s1) = added (snd s)" "updated (snd ?s1) = updated (snd s)"
    using m1 m2 e by simp_all
  then have s1: "?s1 = s" by (rule merge_record_unchanged)
  show ?case using Cons.IH [of s] e s1 by simp
qed

lemma fold_merge_snoc:
  "fold (merge_record lc lm) (sqs @ [r]) s = merge_record lc lm r (fold (merge_record lc lm) sqs s)"
  by simp

lemma fold_merge_added:
  "added (snd (fold (merge_record lc lm) sqs s)) = added (snd s) + length (filter (is_new lc lm) sqs)"
proof (induction sqs arbitrary: s)
  case Nil
  show ?case by simp
next
  case (Cons r sqs)
  have "added (snd (merge_record lc lm r s)) = added (snd s) + (if is_new lc lm r then 1 else 0)"
    by (cases rule: merge_record_cases [of lc r lm s]) simp_all
  then show ?case using Cons [of "merge_record lc lm r s"] by simp
qed

lemma fold_merge_length:
  "length (fst s) \<le> length (fst (fold (merge_record lc lm) sqs s))"
proof (induction sqs rule: rev_induct)
  case Nil
  show ?case by simp
next
  case (snoc r sqs)
  let ?s1 = "fold (merge_record lc lm) sqs s"
  have "length (fst ?s1) \<le> length (fst (merge_record lc lm r ?s1))"
    by (cases rule: merge_record_cases [of lc r lm ?s1]) simp_all
  then show ?case using snoc by simp
qed

lemma merge_loop_index_in_range:
  assumes "localMap_of lc qs k = Some idx"
  shows "idx < length (fst (fold (merge_record lc (localMap_of lc qs)) sqs (qs, d)))"
proof -
  have "idx < length qs" using assms by (rule localMap_of_bound)
  moreover have "length qs \<le> length (fst (fold (merge_record lc (localMap_of lc qs)) sqs (qs, d)))"
    using fold_merge_length [of "(qs, d)" lc "localMap_of lc qs" sqs] by simp
  ultimately show ?thesis by simp
qed

lemma fold_merge_shape:
  assumes bound: "\<forall>k i. lm k = Some i \<longrightarrow> i < length qs"
  shows "\<exists>us. fst (fold (merge_record lc lm) sqs (qs, d)) = us @ map server_copy (filter (is_new lc lm) sqs)
              \<and> map text_of us = map text_of qs"
proof (induction sqs rule: rev_induct)
  case Nil
  show ?case by simp
next
  case (snoc r sqs)
  let ?s1 = "fold (merge_record lc lm) sqs (qs, d)"
  let ?news = "map server_copy (filter (is_new lc lm) sqs)"
  from snoc obtain us where us: "fst ?s1 = us @ ?news" "map text_of us = map text_of qs"
    by blast
  have len: "length us = length qs" using us(2) by (metis length_map)
  show ?case
  proof (cases rule: merge_record_cases [of lc r lm ?s1])
    case skip
    then show ?thesis using us by auto
  next
    case add
    then show ?thesis using us by auto
  next
    case (same i)
    then show ?thesis using us by auto
  next
    case (upd i)
    have i: "i < length us" using upd(2) bound len by simp
    let ?x = "(us ! i)\<lparr>category_of := Some (orUncategorized (category_of r))\<rparr>"
    have f: "filter (is_new lc lm) (sqs @ [r]) = filter (is_new lc lm) sqs"
      using upd(2) by simp
    have "fst (merge_record lc lm r ?s1) = us[i := ?x] @ ?news"
      using upd(4) us(1) i by (simp add: list_update_append1 nth_append)
    then have a: "fst (fold (merge_record lc lm) (sqs @ [r]) (qs, d)) =
        us[i := ?x] @ map server_copy (filter (is_new lc lm) (sqs @ [r]))"
      unfolding f by simp
    have b: "map text_of (us[i := ?x]) = map text_of qs"
      using us(2) i by (simp add: list_eq_iff_nth_eq nth_list_update)
    show ?thesis using a b by blast
  qed
qed

lemma fold_merge_category:
  assumes bound: "\<forall>k i. lm k = Some i \<longrightarrow> i < length (fst s)"
    and inj: "\<forall>k k' i. lm k = Some i \<and> lm k' = Some i \<longrightarrow> k = k'"
    and cons: "\<forall>a\<in>set sqs. \<forall>b\<in>set sqs. key_of lc a \<noteq> [] \<and> key_of lc a = key_of lc b \<longrightarrow>
                 orUncategorized (category_of a) = orUncategorized (category_of b)"
    and r: "r \<in> set sqs" "key_of lc r \<noteq> []" "lm (key_of lc r) = Some i"
  shows "orUncategorized (category_of (fst (fold (merge_record lc lm) sqs s) ! i)) =
         orUncategorized (category_of r)"
  using cons r
proof (induction sqs rule: rev_induct)
  case Nil
  then show ?case by simp
next
  case (snoc x sqs)
  let ?s1 = "fold (merge_record lc lm) sqs s"
  have i: "i < length (fst ?s1)"
    using bound snoc.prems(4) fold_merge_length [of s lc lm sqs] by (meson less_le_trans)
  have cons': "\<forall>a\<in>set sqs. \<forall>b\<in>set sqs. key_of lc a \<noteq> [] \<and> key_of lc a = key_of lc b \<longrightarrow>
                 orUncategorized (category_of a) = orUncategorized (category_of b)"
    using snoc.prems(1) by auto
  show ?case
  proof (cases "key_of lc x = key_of lc r")
    case True
    have eq: "orUncategorized (category_of x) = orUncategorized (category_of r)"
    proof -
      have "x \<in> set (sqs @ [x])" by simp
      moreover have "key_of lc x \<noteq> [] \<and> key_of lc x = key_of lc r"
        using True snoc.prems(3) by simp
      ultimately show ?thesis using snoc.prems(1) snoc.prems(2) by blast
    qed
    have "orUncategorized (category_of (fst (merge_record lc lm x ?s1) ! i)) =
          orUncategorized (category_of x)"
    proof (cases rule: merge_record_cases [of lc x lm ?s1])
      case skip
      then show ?thesis using True snoc.prems(3) by simp
    next
      case add
      then show ?thesis using True snoc.prems(4) by simp
    next
      case (same j)
      then show ?thesis using True snoc.prems(4) by simp
    next
      case (upd j)
      then show ?thesis using True snoc.prems(4) i by (simp add: orUncategorized_idem)
    qed
    then show ?thesis using eq by simp
  next
    case False
    then have rin: "r \<in> set sqs" using snoc.prems(2) by auto
    have ih: "orUncategorized (category_of (fst ?s1 ! i)) = orUncategorized (category_of r)"
      using snoc.IH [OF cons' rin snoc.prems(3) snoc.prems(4)] .
    have "fst (merge_record lc lm x ?s1) ! i = fst ?s1 ! i"
    proof (cases rule: merge_record_cases [of lc x lm ?s1])
      case skip
      then show ?thesis by simp
    next
      case add
      then show ?thesis using i by (simp add: nth_append)
    next
      case (same j)
      then show ?thesis by simp
    next
      case (upd j)
      have "j \<noteq> i" using inj upd(2) snoc.prems(4) False by blast
      then show ?thesis using upd(4) by simp
    qed
    then show ?thesis using ih by simp
  qed
qed

lemma fold_merge_fixpoint:
  "\<forall>r\<in>set sqs. key_of lc r \<noteq> [] \<longrightarrow>
     (\<exists>i. lm (key_of lc r) = Some i \<and>
          orUncategorized (category_of (fst s ! i)) = orUncategorized (category_of r)) \<Longrightarrow>
   fold (merge_record lc lm) sqs s = s"
proof (induction sqs)
  case Nil
  show ?case by simp
next
  case (Cons x sqs)
  have "merge_record lc lm x s = s"
  proof (cases "key_of lc x = []")
    case True
    then show ?thesis by (rule merge_record_skip)
  next
    case False
    then obtain i where "lm (key_of lc x) = Some i"
      "orUncategorized (category_of (fst s ! i)) = orUncategorized (category_of x)"
      using Cons.prems by auto
    then show ?thesis using False by (simp add: merge_record_same)
  qed
  then show ?case using Cons by simp
qed

section \<open>What mergeWithServer returns\<close>

lemma mergeWithServer_details:
  "fst (mergeWithServer lc serverQuotes w) = snd (merge_loop lc serverQuotes (quotes w))"
  by (simp add: mergeWithServer_def Let_def)

lemma mergeWithServer_quotes:
  "quotes (snd (mergeWithServer lc serverQuotes w)) = fst (merge_loop lc serverQuotes (quotes w))"
  by (simp add: mergeWithServer_def Let_def populateCategories_def saveQuotes_def emit_def)

lemma mergeWithServer_effects:
  "effects (snd (mergeWithServer lc serverQuotes w)) =
     (let s = merge_loop lc serverQuotes (quotes w)
      in if added (snd s) \<noteq> 0 \<or> updated (snd s) \<noteq> 0
         then effects w @ [SaveQuotes (fst s),
                PopulateCategories (distinct_first [] (map (\<lambda>q. orUncategorized (category_of q)) (fst s)))]
         else effects w)"
  by (simp add: mergeWithServer_def Let_def populateCategories_def saveQuotes_def emit_def)

lemma merge_loop_unchanged:
  "added (snd (merge_loop lc serverQuotes qs)) = 0 \<Longrightarrow> updated (snd (merge_loop lc serverQuotes qs)) = 0 \<Longrightarrow>
   merge_loop lc serverQuotes qs = (qs, no_details)"
  unfolding merge_loop_def
  by (rule fold_merge_unchanged) (simp_all add: no_details_def)

section \<open>The claims about mergeWithServer\<close>

text \<open>
  C10. For every quote store and every remote snapshot, the summary that
  \<^verbatim>\<open>mergeWithServer\<close> returns has \<open>updated = conflictsResolved\<close>: the two counters
  start at zero and are only ever incremented together.
\<close>

theorem updated_eq_conflictsResolved:
  "updated (fst (mergeWithServer lc serverQuotes w)) =
   conflictsResolved (fst (mergeWithServer lc serverQuotes w))"
  unfolding mergeWithServer_details merge_loop_def
  by (rule fold_merge_coupled) (simp add: no_details_def)

text \<open>
  An instance: the local quote A in category X against the remote record A in category Y
  gives one update and one resolved conflict.
\<close>

theorem updated_eq_conflictsResolved_witness:
  "updated (fst (mergeWithServer id [\<lparr>text_of = (js ''A''), category_of = Some (js ''Y'')\<rparr>]
      \<lparr>quotes = [\<lparr>text_of = (js ''A''), category_of = Some (js ''X'')\<rparr>], effects = []\<rparr>)) =
   conflictsResolved (fst (mergeWithServer id [\<lparr>text_of = (js ''A''), category_of = Some (js ''Y'')\<rparr>]
      \<lparr>quotes = [\<lparr>text_of = (js ''A''), category_of = Some (js ''X'')\<rparr>], effects = []\<rparr>))
   \<and> updated (fst (mergeWithServer id [\<lparr>text_of = (js ''A''), category_of = Some (js ''Y'')\<rparr>]
      \<lparr>quotes = [\<lparr>text_of = (js ''A''), category_of = Some (js ''X'')\<rparr>], effects = []\<rparr>)) = 1"
proof -
  have e: "updated (fst (mergeWithServer id [\<lparr>text_of = (js ''A''), category_of = Some (js ''Y'')\<rparr>]
      \<lparr>quotes = [\<lparr>text_of = (js ''A''), category_of = Some (js ''X'')\<rparr>], effects = []\<rparr>)) = 1"
    by code_simp
  show ?thesis
    using updated_eq_conflictsResolved [of id "[\<lparr>text_of = (js ''A''), category_of = Some (js ''Y'')\<rparr>]"
      "\<lparr>quotes = [\<lparr>text_of = (js ''A''), category_of = Some (js ''X'')\<rparr>], effects = []\<rparr>"] e
    by simp
qed

text \<open>
  C7. For every quote store and remote snapshot, \<^verbatim>\<open>mergeWithServer\<close> calls
  \<^verbatim>\<open>saveQuotes\<close> and then \<^verbatim>\<open>populateCategories\<close>, on the merged array, exactly when
  the summary has \<open>added + updated > 0\<close>; when \<open>added + updated = 0\<close> the array is
  unchanged and nothing is written (the whole state is as before).
\<close>

theorem persist_exactly_when_changed:
  "(if 0 < added (fst (mergeWithServer lc serverQuotes w)) + updated (fst (mergeWithServer lc serverQuotes w))
    then effects (snd (mergeWithServer lc serverQuotes w)) =
           effects w @
           [SaveQuotes (quotes (snd (mergeWithServer lc serverQuotes w))),
            PopulateCategories (distinct_first []
              (map (\<lambda>q. orUncategorized (category_of q)) (quotes (snd (mergeWithServer lc serverQuotes w)))))]
    else snd (mergeWithServer lc serverQuotes w) = w)"
proof (cases "0 < added (fst (mergeWithServer lc serverQuotes w)) + updated (fst (mergeWithServer lc serverQuotes w))")
  case True
  then have "added (snd (merge_loop lc serverQuotes (quotes w))) \<noteq> 0 \<or>
             updated (snd (merge_loop lc serverQuotes (quotes w))) \<noteq> 0"
    by (simp add: mergeWithServer_details)
  then show ?thesis using True
    by (simp add: mergeWithServer_effects mergeWithServer_quotes Let_def)
next
  case False
  then have z: "added (snd (merge_loop lc serverQuotes (quotes w))) = 0"
    "updated (snd (merge_loop lc serverQuotes (quotes w))) = 0"
    by (simp_all add: mergeWithServer_details)
  have "merge_loop lc serverQuotes (quotes w) = (quotes w, no_details)"
    using z by (rule merge_loop_unchanged)
  then have "snd (mergeWithServer lc serverQuotes w) = w"
    by (simp add: mergeWithServer_def Let_def no_details_def)
  then show ?thesis using False by simp
qed

text \<open>
  Two instances: a remote record with a new text is appended and the array is saved; a
  remote record that matches a local quote in text and category leaves the state as it was.
\<close>

theorem persist_exactly_when_changed_witness:
  "effects (snd (mergeWithServer id [\<lparr>text_of = (js ''B''), category_of = Some (js ''Y'')\<rparr>]
      \<lparr>quotes = [\<lparr>text_of = (js ''A''), category_of = Some (js ''X'')\<rparr>], effects = []\<rparr>)) =
     [SaveQuotes [\<lparr>text_of = (js ''A''), category_of = Some (js ''X'')\<rparr>, \<lparr>text_of = (js ''B''), category_of = Some (js ''Y'')\<rparr>],
      PopulateCategories [(js ''X''), (js ''Y'')]]
   \<and> snd (mergeWithServer id [\<lparr>text_of = (js ''a ''), category_of = Some (js ''X'')\<rparr>]
      \<lparr>quotes = [\<lparr>text_of = (js ''A''), category_of = Some (js ''X'')\<rparr>], effects = []\<rparr>) =
     \<lparr>quotes = [\<lparr>text_of = (js ''A''), category_of = Some (js ''X'')\<rparr>], effects = []\<rparr>"
proof -
  have a: "fst (mergeWithServer id [\<lparr>text_of = (js ''B''), category_of = Some (js ''Y'')\<rparr>]
      \<lparr>quotes = [\<lparr>text_of = (js ''A''), category_of = Some (js ''X'')\<rparr>], effects = []\<rparr>) =
      \<lparr>added = 1, updated = 0, conflictsResolved = 0\<rparr>"
    by code_simp
  have q: "quotes (snd (mergeWithServer id [\<lparr>text_of = (js ''B''), category_of = Some (js ''Y'')\<rparr>]
      \<lparr>quotes = [\<lparr>text_of = (js ''A''), category_of = Some (js ''X'')\<rparr>], effects = []\<rparr>)) =
      [\<lparr>text_of = (js ''A''), category_of = Some (js ''X'')\<rparr>, \<lparr>text_of = (js ''B''), category_of = Some (js ''Y'')\<rparr>]"
    by code_simp
  have c: "distinct_first [] (map (\<lambda>q. orUncategorized (category_of q))
      [\<lparr>text_of = (js ''A''), category_of = Some (js ''X'')\<rparr>, \<lparr>text_of = (js ''B''), category_of = Some (js ''Y'')\<rparr>]) = [(js ''X''), (js ''Y'')]"
    by code_simp
  have b: "fst (mergeWithServer id [\<lparr>text_of = (js ''a ''), category_of = Some (js ''X'')\<rparr>]
      \<lparr>quotes = [\<lparr>text_of = (js ''A''), category_of = Some (js ''X'')\<rparr>], effects = []\<rparr>) =
      \<lparr>added = 0, updated = 0, conflictsResolved = 0\<rparr>"
    by code_simp
  show ?thesis
    using persist_exactly_when_changed [of id "[\<lparr>text_of = (js ''B''), category_of = Some (js ''Y'')\<rparr>]"
        "\<lparr>quotes = [\<lparr>text_of = (js ''A''), category_of = Some (js ''X'')\<rparr>], effects = []\<rparr>"]
      persist_exactly_when_changed [of id "[\<lparr>text_of = (js ''a ''), category_of = Some (js ''X'')\<rparr>]"
        "\<lparr>quotes = [\<lparr>text_of = (js ''A''), category_of = Some (js ''X'')\<rparr>], effects = []\<rparr>"]
    by (simp add: a b q orUncategorized_def)
qed

lemma merge_loop_skip:
  "key_of lc sq = [] \<Longrightarrow> merge_loop lc (pre @ sq # post) qs = merge_loop lc (pre @ post) qs"
  by (simp add: merge_loop_def merge_record_skip)

lemma merge_loop_Nil: "merge_loop lc [] qs = (qs, no_details)"
  by (simp add: merge_loop_def)

lemma mergeWithServer_cong:
  "merge_loop lc sqs (quotes w) = merge_loop lc sqs' (quotes w) \<Longrightarrow>
   mergeWithServer lc sqs w = mergeWithServer lc sqs' w"
  by (simp add: mergeWithServer_def)

lemma mergeWithServer_Nil: "mergeWithServer lc [] w = (no_details, w)"
  by (simp add: mergeWithServer_def merge_loop_Nil no_details_def)

text \<open>
  C9. A remote record whose text normalizes to the empty string is skipped: wherever it
  stands in the snapshot, the merge returns the same summary and the same state as the
  merge of the snapshot without it, so it is never added, never matched and changes no
  counter. In particular a snapshot that holds only such a record gives
  \<open>added = 0\<close>, \<open>updated = 0\<close> and leaves the store and its effects unchanged.
\<close>

theorem empty_text_record_ignored:
  assumes "normalizeText lc (text_of sq) = []"
  shows "mergeWithServer lc (pre @ sq # post) w = mergeWithServer lc (pre @ post) w
       \<and> mergeWithServer lc [sq] w = (no_details, w)"
proof
  show "mergeWithServer lc (pre @ sq # post) w = mergeWithServer lc (pre @ post) w"
    using assms by (intro mergeWithServer_cong merge_loop_skip)
  have "mergeWithServer lc ([] @ sq # []) w = mergeWithServer lc ([] @ []) w"
    using assms by (intro mergeWithServer_cong merge_loop_skip)
  then show "mergeWithServer lc [sq] w = (no_details, w)"
    by (simp add: mergeWithServer_Nil)
qed

text \<open>The remote record with text \<^verbatim>\<open>""\<close> and category Z, alone and after another record.\<close>

theorem empty_text_record_ignored_witness:
  "normalizeText id (text_of \<lparr>text_of = (js ''''), category_of = Some (js ''Z'')\<rparr>) = []
   \<and> mergeWithServer id [\<lparr>text_of = (js ''A''), category_of = Some (js ''Y'')\<rparr>,
                        \<lparr>text_of = (js ''''), category_of = Some (js ''Z'')\<rparr>]
        \<lparr>quotes = [\<lparr>text_of = (js ''A''), category_of = Some (js ''X'')\<rparr>], effects = []\<rparr> =
      mergeWithServer id [\<lparr>text_of = (js ''A''), category_of = Some (js ''Y'')\<rparr>]
        \<lparr>quotes = [\<lparr>text_of = (js ''A''), category_of = Some (js ''X'')\<rparr>], effects = []\<rparr>
   \<and> mergeWithServer id [\<lparr>text_of = (js ''''), category_of = Some (js ''Z'')\<rparr>]
        \<lparr>quotes = [\<lparr>text_of = (js ''A''), category_of = Some (js ''X'')\<rparr>], effects = []\<rparr> =
      (\<lparr>added = 0, updated = 0, conflictsResolved = 0\<rparr>,
       \<lparr>quotes = [\<lparr>text_of = (js ''A''), category_of = Some (js ''X'')\<rparr>], effects = []\<rparr>)"
proof -
  have h: "normalizeText id (text_of \<lparr>text_of = (js ''''), category_of = Some (js ''Z'')\<rparr>) = []"
    by code_simp
  show ?thesis
    using h empty_text_record_ignored [OF h, of "[\<lparr>text_of = (js ''A''), category_of = Some (js ''Y'')\<rparr>]" "[]"
      "\<lparr>quotes = [\<lparr>text_of = (js ''A''), category_of = Some (js ''X'')\<rparr>], effects = []\<rparr>"]
    by (simp add: no_details_def)
qed


section \<open>The local map holds the last occurrence\<close>

text \<open>
  C4, as the code has it. For a store with several entries of the same normalized text,
  the map that \<^verbatim>\<open>mergeWithServer\<close> builds holds the last such entry in store order, not
  the first: every \<^verbatim>\<open>localMap.set\<close> for a key replaces the entry set before. That last
  entry is therefore the one whose category a conflicting remote record overwrites.
\<close>

theorem localMap_holds_last_occurrence:
  "(localMap_of lc qs k = Some i \<longleftrightarrow>
      i < length qs \<and> normalizeText lc (text_of (qs ! i)) = k \<and>
      (\<forall>j. i < j \<and> j < length qs \<longrightarrow> normalizeText lc (text_of (qs ! j)) \<noteq> k))
   \<and> (localMap_of lc (quotes w) (normalizeText lc (text_of sq)) = Some n \<and>
        normalizeText lc (text_of sq) \<noteq> [] \<and>
        orUncategorized (category_of (quotes w ! n)) \<noteq> orUncategorized (category_of sq) \<longrightarrow>
        quotes (snd (mergeWithServer lc [sq] w)) =
          (quotes w)[n := (quotes w ! n)\<lparr>category_of := Some (orUncategorized (category_of sq))\<rparr>])"
proof (intro conjI impI)
  show "localMap_of lc qs k = Some i \<longleftrightarrow>
      i < length qs \<and> normalizeText lc (text_of (qs ! i)) = k \<and>
      (\<forall>j. i < j \<and> j < length qs \<longrightarrow> normalizeText lc (text_of (qs ! j)) \<noteq> k)"
    by (rule localMap_of_Some)
next
  assume a: "localMap_of lc (quotes w) (normalizeText lc (text_of sq)) = Some n \<and>
        normalizeText lc (text_of sq) \<noteq> [] \<and>
        orUncategorized (category_of (quotes w ! n)) \<noteq> orUncategorized (category_of sq)"
  have "merge_record lc (localMap_of lc (quotes w)) sq (quotes w, no_details) =
      ((quotes w)[n := (quotes w ! n)\<lparr>category_of := Some (orUncategorized (category_of sq))\<rparr>],
       no_details\<lparr>updated := updated no_details + 1,
                  conflictsResolved := conflictsResolved no_details + 1\<rparr>)"
    using a merge_record_upd [of lc sq "localMap_of lc (quotes w)" n "(quotes w, no_details)"] by simp
  then show "quotes (snd (mergeWithServer lc [sq] w)) =
          (quotes w)[n := (quotes w ! n)\<lparr>category_of := Some (orUncategorized (category_of sq))\<rparr>]"
    by (simp add: mergeWithServer_quotes merge_loop_def)
qed

text \<open>
  The store with the entries A in category X and A in category Y, in this order, and the
  remote record A in category Z: the map holds index 1, and the second entry is overwritten.
\<close>

theorem localMap_holds_last_occurrence_witness:
  "localMap_of id [\<lparr>text_of = (js ''A''), category_of = Some (js ''X'')\<rparr>, \<lparr>text_of = (js ''A''), category_of = Some (js ''Y'')\<rparr>] (js ''a'') = Some 1
   \<and> quotes (snd (mergeWithServer id [\<lparr>text_of = (js ''A''), category_of = Some (js ''Z'')\<rparr>]
        \<lparr>quotes = [\<lparr>text_of = (js ''A''), category_of = Some (js ''X'')\<rparr>, \<lparr>text_of = (js ''A''), category_of = Some (js ''Y'')\<rparr>],
           effects = []\<rparr>)) =
      [\<lparr>text_of = (js ''A''), category_of = Some (js ''X'')\<rparr>, \<lparr>text_of = (js ''A''), category_of = Some (js ''Z'')\<rparr>]"
proof -
  let ?qs = "[\<lparr>text_of = (js ''A''), category_of = Some (js ''X'')\<rparr>, \<lparr>text_of = (js ''A''), category_of = Some (js ''Y'')\<rparr>]"
  let ?sq = "\<lparr>text_of = (js ''A''), category_of = Some (js ''Z'')\<rparr>"
  have n: "normalizeText id (js ''A'') = (js ''a'')" by code_simp
  have h1: "(1::nat) < length ?qs \<and> normalizeText id (text_of (?qs ! 1)) = (js ''a'') \<and>
      (\<forall>j. 1 < j \<and> j < length ?qs \<longrightarrow> normalizeText id (text_of (?qs ! j)) \<noteq> (js ''a''))"
    by (auto simp: n)
  have m: "localMap_of id ?qs (js ''a'') = Some 1"
    using localMap_holds_last_occurrence [of id ?qs "(js ''a'')" 1] h1 by blast
  have c: "orUncategorized (Some (js ''Y'')) \<noteq> orUncategorized (Some (js ''Z''))"
    by (simp add: orUncategorized_def)
  have "quotes (snd (mergeWithServer id [?sq] \<lparr>quotes = ?qs, effects = []\<rparr>)) =
      ?qs[1 := (?qs ! 1)\<lparr>category_of := Some (orUncategorized (category_of ?sq))\<rparr>]"
    using localMap_holds_last_occurrence [of id ?qs "(js ''a'')" 1 "\<lparr>quotes = ?qs, effects = []\<rparr>" ?sq 1] m c
    by (simp add: n)
  then show ?thesis using m by (simp add: orUncategorized_def)
qed

text \<open>
  The claim as stated (the first such entry) fails on the same input: the map does not
  hold index 0, and the merge leaves the first entry in category X.
\<close>

theorem first_occurrence_counterexample:
  "localMap_of id [\<lparr>text_of = (js ''A''), category_of = Some (js ''X'')\<rparr>, \<lparr>text_of = (js ''A''), category_of = Some (js ''Y'')\<rparr>]
      (normalizeText id (js ''A'')) \<noteq> Some 0
   \<and> quotes (snd (mergeWithServer id [\<lparr>text_of = (js ''A''), category_of = Some (js ''Z'')\<rparr>]
        \<lparr>quotes = [\<lparr>text_of = (js ''A''), category_of = Some (js ''X'')\<rparr>, \<lparr>text_of = (js ''A''), category_of = Some (js ''Y'')\<rparr>],
           effects = []\<rparr>)) \<noteq>
      [\<lparr>text_of = (js ''A''), category_of = Some (js ''Z'')\<rparr>, \<lparr>text_of = (js ''A''), category_of = Some (js ''Y'')\<rparr>]"
  by code_simp


section \<open>The shape of the merged store\<close>

lemma merge_loop_shape:
  "\<exists>us. fst (merge_loop lc serverQuotes qs) =
           us @ map server_copy (filter (is_new lc (localMap_of lc qs)) serverQuotes)
        \<and> map text_of us = map text_of qs"
  unfolding merge_loop_def
  by (rule fold_merge_shape) (simp add: localMap_of_bound)

lemma merge_loop_old_texts:
  "map text_of (take (length qs) (fst (merge_loop lc serverQuotes qs))) = map text_of qs"
proof -
  obtain us where us: "fst (merge_loop lc serverQuotes qs) =
           us @ map server_copy (filter (is_new lc (localMap_of lc qs)) serverQuotes)"
      "map text_of us = map text_of qs"
    using merge_loop_shape by blast
  have "length us = length qs" using us(2) by (metis length_map)
  then show ?thesis using us by simp
qed

lemma merge_loop_nth_text:
  assumes "i < length qs"
  shows "text_of (fst (merge_loop lc serverQuotes qs) ! i) = text_of (qs ! i)"
proof -
  obtain us where us: "fst (merge_loop lc serverQuotes qs) =
           us @ map server_copy (filter (is_new lc (localMap_of lc qs)) serverQuotes)"
      "map text_of us = map text_of qs"
    using merge_loop_shape by blast
  have l: "length us = length qs" using us(2) by (metis length_map)
  have "text_of (us ! i) = map text_of us ! i" using assms l by simp
  also have "\<dots> = text_of (qs ! i)" using assms us(2) by simp
  finally show ?thesis using us(1) assms l by (simp add: nth_append)
qed

lemma merge_loop_snoc:
  "merge_loop lc (pre @ [sq]) qs = merge_record lc (localMap_of lc qs) sq (merge_loop lc pre qs)"
  by (simp add: merge_loop_def)

section \<open>Remote wins on the entry the local map holds\<close>

text \<open>
  C2, as the code has it. Let the last quote of the store, in store order, whose
  normalized text equals the non-empty normalized text of a remote record stand at index
  \<open>i\<close>. When \<^verbatim>\<open>mergeWithServer\<close> comes to that record (after the records \<open>pre\<close> of the
  snapshot), the quote at \<open>i\<close> still has its text; if its category, with a missing or
  empty one read as "Uncategorized", differs from that of the record, only that quote's
  category is overwritten with the remote category and \<open>updated\<close> and
  \<open>conflictsResolved\<close> both grow by one, while \<open>added\<close> stays; if the categories
  match, the store and the counters stay as they are.
\<close>

theorem remote_wins_on_last_match:
  assumes "i < length (quotes w)"
    and "normalizeText lc (text_of (quotes w ! i)) = normalizeText lc (text_of sq)"
    and "normalizeText lc (text_of sq) \<noteq> []"
    and "\<forall>j. i < j \<and> j < length (quotes w) \<longrightarrow>
           normalizeText lc (text_of (quotes w ! j)) \<noteq> normalizeText lc (text_of sq)"
  shows "let r1 = mergeWithServer lc pre w; r2 = mergeWithServer lc (pre @ [sq]) w;
             old = quotes (snd r1) ! i; c = orUncategorized (category_of sq)
         in text_of old = text_of (quotes w ! i) \<and>
            (if orUncategorized (category_of old) \<noteq> c
             then quotes (snd r2) = (quotes (snd r1))[i := old\<lparr>category_of := Some c\<rparr>] \<and>
                  updated (fst r2) = updated (fst r1) + 1 \<and>
                  conflictsResolved (fst r2) = conflictsResolved (fst r1) + 1 \<and>
                  added (fst r2) = added (fst r1)
             else quotes (snd r2) = quotes (snd r1) \<and> fst r2 = fst r1)"
proof -
  let ?lm = "localMap_of lc (quotes w)"
  let ?s1 = "merge_loop lc pre (quotes w)"
  have lm: "?lm (normalizeText lc (text_of sq)) = Some i"
    using assms(1,2,4) by (simp add: localMap_of_Some)
  have t: "text_of (fst ?s1 ! i) = text_of (quotes w ! i)"
    using assms(1) by (rule merge_loop_nth_text)
  show ?thesis
  proof (cases "orUncategorized (category_of (fst ?s1 ! i)) = orUncategorized (category_of sq)")
    case True
    have "merge_record lc ?lm sq ?s1 = ?s1"
      using assms(3) lm True by (rule merge_record_same)
    then have "merge_loop lc (pre @ [sq]) (quotes w) = ?s1"
      by (simp add: merge_loop_snoc)
    then show ?thesis using True t
      by (simp add: Let_def mergeWithServer_quotes mergeWithServer_details)
  next
    case False
    have "merge_record lc ?lm sq ?s1 =
      ((fst ?s1)[i := (fst ?s1 ! i)\<lparr>category_of := Some (orUncategorized (category_of sq))\<rparr>],
       (snd ?s1)\<lparr>updated := updated (snd ?s1) + 1,
                   conflictsResolved := conflictsResolved (snd ?s1) + 1\<rparr>)"
      using assms(3) lm False by (rule merge_record_upd)
    then have "merge_loop lc (pre @ [sq]) (quotes w) =
      ((fst ?s1)[i := (fst ?s1 ! i)\<lparr>category_of := Some (orUncategorized (category_of sq))\<rparr>],
       (snd ?s1)\<lparr>updated := updated (snd ?s1) + 1,
                   conflictsResolved := conflictsResolved (snd ?s1) + 1\<rparr>)"
      by (simp add: merge_loop_snoc)
    then show ?thesis using False t
      by (simp add: Let_def mergeWithServer_quotes mergeWithServer_details)
  qed
qed

text \<open>
  The local quote A in category X and the remote snapshot of the one record A in category
  Y: the local quote becomes A in category Y, with \<open>updated = 1\<close> and
  \<open>conflictsResolved = 1\<close>.
\<close>

theorem remote_wins_on_last_match_witness:
  "quotes (snd (mergeWithServer id [\<lparr>text_of = (js ''A''), category_of = Some (js ''Y'')\<rparr>]
      \<lparr>quotes = [\<lparr>text_of = (js ''A''), category_of = Some (js ''X'')\<rparr>], effects = []\<rparr>)) =
     [\<lparr>text_of = (js ''A''), category_of = Some (js ''Y'')\<rparr>]
   \<and> fst (mergeWithServer id [\<lparr>text_of = (js ''A''), category_of = Some (js ''Y'')\<rparr>]
      \<lparr>quotes = [\<lparr>text_of = (js ''A''), category_of = Some (js ''X'')\<rparr>], effects = []\<rparr>) =
     \<lparr>added = 0, updated = 1, conflictsResolved = 1\<rparr>"
proof -
  let ?w = "\<lparr>quotes = [\<lparr>text_of = (js ''A''), category_of = Some (js ''X'')\<rparr>], effects = []\<rparr>"
  let ?sq = "\<lparr>text_of = (js ''A''), category_of = Some (js ''Y'')\<rparr>"
  have n: "normalizeText id (js ''A'') = (js ''a'')" by code_simp
  have h1: "0 < length (quotes ?w)" by simp
  have h2: "normalizeText id (text_of (quotes ?w ! 0)) = normalizeText id (text_of ?sq)" by simp
  have h3: "normalizeText id (text_of ?sq) \<noteq> []" by (simp add: n)
  have h4: "\<forall>j. 0 < j \<and> j < length (quotes ?w) \<longrightarrow>
           normalizeText id (text_of (quotes ?w ! j)) \<noteq> normalizeText id (text_of ?sq)" by auto
  have c: "orUncategorized (Some (js ''X'')) = (js ''X'')" "orUncategorized (Some (js ''Y'')) = (js ''Y'')"
    by (simp_all add: orUncategorized_def)
  have "quotes (snd (mergeWithServer id [?sq] ?w)) = [\<lparr>text_of = (js ''A''), category_of = Some (js ''Y'')\<rparr>]
      \<and> updated (fst (mergeWithServer id [?sq] ?w)) = 1
      \<and> conflictsResolved (fst (mergeWithServer id [?sq] ?w)) = 1
      \<and> added (fst (mergeWithServer id [?sq] ?w)) = 0"
    using remote_wins_on_last_match [OF h1 h2 h3 h4, of "[]"]
    by (simp add: Let_def mergeWithServer_Nil no_details_def c)
  then show ?thesis
    by (cases "fst (mergeWithServer id [?sq] ?w)") simp
qed

text \<open>
  The claim as stated fails when the matching quote is not the last of its text: in the
  store with A in category X followed by A in category Y, the remote record A in category
  Y leaves the first quote in category X and increments no counter.
\<close>

theorem remote_wins_counterexample:
  "mergeWithServer id [\<lparr>text_of = (js ''A''), category_of = Some (js ''Y'')\<rparr>]
      \<lparr>quotes = [\<lparr>text_of = (js ''A''), category_of = Some (js ''X'')\<rparr>, \<lparr>text_of = (js ''A''), category_of = Some (js ''Y'')\<rparr>],
         effects = []\<rparr> =
     (\<lparr>added = 0, updated = 0, conflictsResolved = 0\<rparr>,
      \<lparr>quotes = [\<lparr>text_of = (js ''A''), category_of = Some (js ''X'')\<rparr>, \<lparr>text_of = (js ''A''), category_of = Some (js ''Y'')\<rparr>],
         effects = []\<rparr>)"
  by code_simp


lemma map_key_of_text: "map text_of us = map text_of qs \<Longrightarrow> map (key_of lc) us = map (key_of lc) qs"
proof -
  assume "map text_of us = map text_of qs"
  then have "map (normalizeText lc) (map text_of us) = map (normalizeText lc) (map text_of qs)" by simp
  then show ?thesis by (simp add: comp_def)
qed


section \<open>A second pass with the same snapshot\<close>

text \<open>
  After a pass, every remote record with a non-empty key finds, in the map built from the
  merged store, a quote that already has its category, provided the records that share a
  key share their category.
\<close>

lemma merged_store_agrees:
  assumes cons: "\<forall>a\<in>set serverQuotes. \<forall>b\<in>set serverQuotes.
            key_of lc a \<noteq> [] \<and> key_of lc a = key_of lc b \<longrightarrow>
            orUncategorized (category_of a) = orUncategorized (category_of b)"
    and r: "r \<in> set serverQuotes" "key_of lc r \<noteq> []"
  shows "\<exists>i. localMap_of lc (fst (merge_loop lc serverQuotes qs)) (key_of lc r) = Some i \<and>
             orUncategorized (category_of (fst (merge_loop lc serverQuotes qs) ! i)) =
             orUncategorized (category_of r)"
proof -
  let ?lm = "localMap_of lc qs"
  let ?new = "filter (is_new lc ?lm) serverQuotes"
  let ?qs1 = "fst (merge_loop lc serverQuotes qs)"
  obtain us where us: "?qs1 = us @ map server_copy ?new" "map text_of us = map text_of qs"
    using merge_loop_shape by blast
  have len: "length us = length qs" using us(2) by (metis length_map)
  have keys: "map (key_of lc) us = map (key_of lc) qs" using us(2) by (rule map_key_of_text)
  have key_nth: "key_of lc (us ! j) = key_of lc (qs ! j)" if "j < length qs" for j
  proof -
    have "key_of lc (us ! j) = map (key_of lc) us ! j" using that len by simp
    also have "\<dots> = key_of lc (qs ! j)" using that keys by simp
    finally show ?thesis .
  qed
  have present: "key_of lc r \<in> key_of lc ` set ?qs1"
  proof (cases "?lm (key_of lc r)")
    case None
    then have "r \<in> set ?new" using r by simp
    then have "server_copy r \<in> set ?qs1" using us(1) by simp
    then have "key_of lc (server_copy r) \<in> key_of lc ` set ?qs1" by (rule imageI)
    then show ?thesis by simp
  next
    case (Some i0)
    then have i0: "i0 < length qs" "key_of lc (qs ! i0) = key_of lc r"
      using localMap_of_SomeD [of lc qs "key_of lc r" i0] by simp_all
    have "us ! i0 \<in> set ?qs1" using i0(1) len us(1) by simp
    then have "key_of lc (us ! i0) \<in> key_of lc ` set ?qs1" by (rule imageI)
    then show ?thesis using key_nth [OF i0(1)] i0(2) by simp
  qed
  then obtain i where i: "localMap_of lc ?qs1 (key_of lc r) = Some i"
    using localMap_of_None [of lc ?qs1 "key_of lc r"] by (cases "localMap_of lc ?qs1 (key_of lc r)") simp_all
  have il: "i < length ?qs1" and ik: "key_of lc (?qs1 ! i) = key_of lc r"
    and ilast: "\<And>j. i < j \<Longrightarrow> j < length ?qs1 \<Longrightarrow> key_of lc (?qs1 ! j) \<noteq> key_of lc r"
    using localMap_of_SomeD [OF i] by simp_all
  have "orUncategorized (category_of (?qs1 ! i)) = orUncategorized (category_of r)"
  proof (cases "i < length us")
    case True
    then have iq: "i < length qs" using len by simp
    have e: "?qs1 ! i = us ! i" using True us(1) by (simp add: nth_append)
    have k0: "key_of lc (qs ! i) = key_of lc r" using ik e key_nth [OF iq] by simp
    have "key_of lc (qs ! j) \<noteq> key_of lc r" if "i < j" "j < length qs" for j
    proof -
      have "j < length ?qs1" using that(2) len us(1) by simp
      then have "key_of lc (?qs1 ! j) \<noteq> key_of lc r" using ilast that(1) by simp
      moreover have "?qs1 ! j = us ! j" using that(2) len us(1) by (simp add: nth_append)
      ultimately show ?thesis using key_nth [OF that(2)] by simp
    qed
    then have lm: "?lm (key_of lc r) = Some i" using iq k0 by (simp add: localMap_of_Some)
    have bound: "\<forall>k n. ?lm k = Some n \<longrightarrow> n < length (fst (qs, no_details))"
      using localMap_of_bound by fastforce
    have inj: "\<forall>k k' n. ?lm k = Some n \<and> ?lm k' = Some n \<longrightarrow> k = k'"
      using localMap_of_inj by blast
    show ?thesis
      using fold_merge_category [OF bound inj cons r lm] by (simp add: merge_loop_def)
  next
    case False
    let ?n = "i - length us"
    have n: "?n < length ?new" using False il us(1) by simp
    have e: "?qs1 ! i = server_copy (?new ! ?n)" using False n us(1) by (simp add: nth_append)
    have mem: "?new ! ?n \<in> set ?new" using n by (rule nth_mem)
    then have in_s: "?new ! ?n \<in> set serverQuotes" and ne: "key_of lc (?new ! ?n) \<noteq> []"
      by simp_all
    have "key_of lc (?new ! ?n) = key_of lc r" using ik e by simp
    then have "orUncategorized (category_of (?new ! ?n)) = orUncategorized (category_of r)"
      using cons in_s r(1) ne by blast
    then show ?thesis using e by (simp add: orUncategorized_idem)
  qed
  then show ?thesis using i by blast
qed

text \<open>
  C1, as the code has it. Let the records of a remote snapshot that share a non-empty
  normalized text also share their category (a missing or empty one read as
  "Uncategorized"). Then merging the snapshot and merging it again gives a second summary
  with \<open>added = 0\<close>, \<open>updated = 0\<close> and \<open>conflictsResolved = 0\<close>, and the second pass
  changes neither the store nor anything else.
\<close>

theorem second_pass_changes_nothing:
  assumes "\<forall>a\<in>set serverQuotes. \<forall>b\<in>set serverQuotes.
            normalizeText lc (text_of a) \<noteq> [] \<and> normalizeText lc (text_of a) = normalizeText lc (text_of b) \<longrightarrow>
            orUncategorized (category_of a) = orUncategorized (category_of b)"
  shows "let w1 = snd (mergeWithServer lc serverQuotes w); r2 = mergeWithServer lc serverQuotes w1
         in added (fst r2) = 0 \<and> updated (fst r2) = 0 \<and> conflictsResolved (fst r2) = 0 \<and>
            snd r2 = w1"
proof -
  let ?w1 = "snd (mergeWithServer lc serverQuotes w)"
  let ?qs1 = "fst (merge_loop lc serverQuotes (quotes w))"
  have q1: "quotes ?w1 = ?qs1" by (rule mergeWithServer_quotes)
  have "\<forall>r\<in>set serverQuotes. key_of lc r \<noteq> [] \<longrightarrow>
       (\<exists>i. localMap_of lc ?qs1 (key_of lc r) = Some i \<and>
          orUncategorized (category_of (fst (?qs1, no_details) ! i)) = orUncategorized (category_of r))"
    using merged_store_agrees [OF assms] by simp
  then have "fold (merge_record lc (localMap_of lc ?qs1)) serverQuotes (?qs1, no_details) = (?qs1, no_details)"
    by (rule fold_merge_fixpoint)
  then have "merge_loop lc serverQuotes (quotes ?w1) = (quotes ?w1, no_details)"
    by (simp add: merge_loop_def q1)
  then have "mergeWithServer lc serverQuotes ?w1 = (no_details, ?w1)"
    by (simp add: mergeWithServer_def no_details_def)
  then show ?thesis by (simp add: Let_def no_details_def)
qed

text \<open>
  A snapshot that updates one local quote and adds a new text twice, with the same
  category: the second pass reports nothing.
\<close>

theorem second_pass_changes_nothing_witness:
  "fst (mergeWithServer id
          [\<lparr>text_of = (js ''A''), category_of = Some (js ''Y'')\<rparr>, \<lparr>text_of = (js ''B''), category_of = None\<rparr>,
           \<lparr>text_of = (js ''b ''), category_of = Some (js '''')\<rparr>]
          (snd (mergeWithServer id
             [\<lparr>text_of = (js ''A''), category_of = Some (js ''Y'')\<rparr>, \<lparr>text_of = (js ''B''), category_of = None\<rparr>,
              \<lparr>text_of = (js ''b ''), category_of = Some (js '''')\<rparr>]
             \<lparr>quotes = [\<lparr>text_of = (js ''A''), category_of = Some (js ''X'')\<rparr>], effects = []\<rparr>))) =
     \<lparr>added = 0, updated = 0, conflictsResolved = 0\<rparr>
   \<and> fst (mergeWithServer id
          [\<lparr>text_of = (js ''A''), category_of = Some (js ''Y'')\<rparr>, \<lparr>text_of = (js ''B''), category_of = None\<rparr>,
           \<lparr>text_of = (js ''b ''), category_of = Some (js '''')\<rparr>]
          \<lparr>quotes = [\<lparr>text_of = (js ''A''), category_of = Some (js ''X'')\<rparr>], effects = []\<rparr>) =
     \<lparr>added = 2, updated = 1, conflictsResolved = 1\<rparr>"
proof -
  let ?sqs = "[\<lparr>text_of = (js ''A''), category_of = Some (js ''Y'')\<rparr>, \<lparr>text_of = (js ''B''), category_of = None\<rparr>,
           \<lparr>text_of = (js ''b ''), category_of = Some (js '''')\<rparr>]"
  let ?w = "\<lparr>quotes = [\<lparr>text_of = (js ''A''), category_of = Some (js ''X'')\<rparr>], effects = []\<rparr>"
  have n: "normalizeText id (js ''A'') = (js ''a'')" "normalizeText id (js ''B'') = (js ''b'')" "normalizeText id (js ''b '') = (js ''b'')"
    by code_simp+
  have h: "\<forall>a\<in>set ?sqs. \<forall>b\<in>set ?sqs.
            normalizeText id (text_of a) \<noteq> [] \<and> normalizeText id (text_of a) = normalizeText id (text_of b) \<longrightarrow>
            orUncategorized (category_of a) = orUncategorized (category_of b)"
    by (simp add: n orUncategorized_def)
  have first: "fst (mergeWithServer id ?sqs ?w) = \<lparr>added = 2, updated = 1, conflictsResolved = 1\<rparr>"
    by code_simp
  have "added (fst (mergeWithServer id ?sqs (snd (mergeWithServer id ?sqs ?w)))) = 0
      \<and> updated (fst (mergeWithServer id ?sqs (snd (mergeWithServer id ?sqs ?w)))) = 0
      \<and> conflictsResolved (fst (mergeWithServer id ?sqs (snd (mergeWithServer id ?sqs ?w)))) = 0"
    using second_pass_changes_nothing [OF h, of ?w] by (simp add: Let_def)
  then have "fst (mergeWithServer id ?sqs (snd (mergeWithServer id ?sqs ?w))) =
      \<lparr>added = 0, updated = 0, conflictsResolved = 0\<rparr>"
    by (cases "fst (mergeWithServer id ?sqs (snd (mergeWithServer id ?sqs ?w)))") simp
  then show ?thesis using first by simp
qed

text \<open>
  The claim as stated fails on a snapshot that holds the same text in two categories: on
  the empty store the first pass appends both records, and the second pass overwrites the
  category of the last of them twice.
\<close>

theorem second_pass_counterexample:
  "fst (mergeWithServer id
          [\<lparr>text_of = (js ''A''), category_of = Some (js ''X'')\<rparr>, \<lparr>text_of = (js ''A''), category_of = Some (js ''Y'')\<rparr>]
          (snd (mergeWithServer id
             [\<lparr>text_of = (js ''A''), category_of = Some (js ''X'')\<rparr>, \<lparr>text_of = (js ''A''), category_of = Some (js ''Y'')\<rparr>]
             \<lparr>quotes = [], effects = []\<rparr>))) =
     \<lparr>added = 0, updated = 2, conflictsResolved = 2\<rparr>"
  by code_simp

section \<open>Uniqueness of normalized texts is preserved, not established\<close>

text \<open>
  The keys of the merged store: those of the store before the pass, in place, followed by
  the key of every new record, once per occurrence in the snapshot.
\<close>

lemma merged_keys:
  "map (key_of lc) (fst (merge_loop lc serverQuotes qs)) =
     map (key_of lc) qs @
     map (key_of lc)
       (filter (\<lambda>sq. key_of lc sq \<noteq> [] \<and> key_of lc sq \<notin> key_of lc ` set qs) serverQuotes)"
proof -
  let ?new = "filter (is_new lc (localMap_of lc qs)) serverQuotes"
  obtain us where us: "fst (merge_loop lc serverQuotes qs) = us @ map server_copy ?new"
      "map text_of us = map text_of qs"
    using merge_loop_shape by blast
  have k1: "map (key_of lc) us = map (key_of lc) qs"
    using us(2) by (rule map_key_of_text)
  have k2: "map (key_of lc) (map server_copy ?new) = map (key_of lc) ?new"
    by simp
  have f: "?new = filter (\<lambda>sq. key_of lc sq \<noteq> [] \<and> key_of lc sq \<notin> key_of lc ` set qs) serverQuotes"
    by (simp add: localMap_of_None)
  have "map (key_of lc) (us @ map server_copy ?new) = map (key_of lc) qs @ map (key_of lc) ?new"
    using k1 k2 by (simp del: map_map)
  then show ?thesis using us(1) f by simp
qed

text \<open>
  The store is free of duplicates after a pass exactly when it was before the pass and no
  new text is repeated in the snapshot.
\<close>

lemma merged_keys_distinct_iff:
  "distinct (map (key_of lc) (quotes (snd (mergeWithServer lc serverQuotes w)))) \<longleftrightarrow>
     distinct (map (key_of lc) (quotes w)) \<and>
     distinct (map (key_of lc)
       (filter (\<lambda>sq. key_of lc sq \<noteq> [] \<and> key_of lc sq \<notin> key_of lc ` set (quotes w)) serverQuotes))"
proof -
  let ?new = "filter (\<lambda>sq. key_of lc sq \<noteq> [] \<and> key_of lc sq \<notin> key_of lc ` set (quotes w)) serverQuotes"
  have dis: "set (map (key_of lc) (quotes w)) \<inter> set (map (key_of lc) ?new) = {}"
    by auto (metis imageI)
  show ?thesis
    unfolding mergeWithServer_quotes merged_keys distinct_append using dis by blast
qed

text \<open>
  C3, as the code has it. \<^verbatim>\<open>mergeWithServer\<close> never removes an entry: the entries
  present before the pass keep their positions and their texts, so duplicates that exist
  before the pass exist after it. Uniqueness is preserved: if the store has at most one
  entry per normalized text before the pass, and no non-empty normalized text that is
  absent from the store occurs twice in the snapshot, the store has at most one entry
  per normalized text after the pass.
\<close>

theorem merge_preserves_unique_texts:
  "map text_of (take (length (quotes w)) (quotes (snd (mergeWithServer lc serverQuotes w)))) =
     map text_of (quotes w)
   \<and> (distinct (map (\<lambda>q. normalizeText lc (text_of q)) (quotes w)) \<and>
       distinct (map (\<lambda>sq. normalizeText lc (text_of sq))
         (filter (\<lambda>sq. normalizeText lc (text_of sq) \<noteq> [] \<and>
                       normalizeText lc (text_of sq) \<notin>
                         (\<lambda>q. normalizeText lc (text_of q)) ` set (quotes w))
            serverQuotes)) \<longrightarrow>
       distinct (map (\<lambda>q. normalizeText lc (text_of q))
         (quotes (snd (mergeWithServer lc serverQuotes w)))))"
proof (intro conjI impI)
  show "map text_of (take (length (quotes w)) (quotes (snd (mergeWithServer lc serverQuotes w)))) =
     map text_of (quotes w)"
    by (simp add: mergeWithServer_quotes merge_loop_old_texts)
next
  assume "distinct (map (key_of lc) (quotes w)) \<and>
       distinct (map (key_of lc)
         (filter (\<lambda>sq. key_of lc sq \<noteq> [] \<and> key_of lc sq \<notin> key_of lc ` set (quotes w))
            serverQuotes))"
  then show "distinct (map (key_of lc) (quotes (snd (mergeWithServer lc serverQuotes w))))"
    by (simp only: merged_keys_distinct_iff)
qed

text \<open>
  A store of two quotes with different texts, and a snapshot that brings one new text and
  twice a text the store has: the normalized texts stay distinct and one quote is added.
\<close>

theorem merge_preserves_unique_texts_witness:
  "distinct (map (\<lambda>q. normalizeText id (text_of q))
     (quotes (snd (mergeWithServer id
        [\<lparr>text_of = js ''C'', category_of = Some (js ''Z'')\<rparr>,
         \<lparr>text_of = js ''a'', category_of = Some (js ''Z'')\<rparr>,
         \<lparr>text_of = js '' A'', category_of = Some (js ''Z'')\<rparr>]
        \<lparr>quotes = [\<lparr>text_of = js ''A'', category_of = Some (js ''X'')\<rparr>,
                    \<lparr>text_of = js ''B'', category_of = Some (js ''Y'')\<rparr>],
           effects = []\<rparr>))))
   \<and> quotes (snd (mergeWithServer id
        [\<lparr>text_of = js ''C'', category_of = Some (js ''Z'')\<rparr>,
         \<lparr>text_of = js ''a'', category_of = Some (js ''Z'')\<rparr>,
         \<lparr>text_of = js '' A'', category_of = Some (js ''Z'')\<rparr>]
        \<lparr>quotes = [\<lparr>text_of = js ''A'', category_of = Some (js ''X'')\<rparr>,
                    \<lparr>text_of = js ''B'', category_of = Some (js ''Y'')\<rparr>],
           effects = []\<rparr>)) =
      [\<lparr>text_of = js ''A'', category_of = Some (js ''Z'')\<rparr>,
       \<lparr>text_of = js ''B'', category_of = Some (js ''Y'')\<rparr>,
       \<lparr>text_of = js ''C'', category_of = Some (js ''Z'')\<rparr>]"
proof -
  let ?w = "\<lparr>quotes = [\<lparr>text_of = js ''A'', category_of = Some (js ''X'')\<rparr>,
                    \<lparr>text_of = js ''B'', category_of = Some (js ''Y'')\<rparr>],
           effects = []\<rparr>"
  let ?sqs = "[\<lparr>text_of = js ''C'', category_of = Some (js ''Z'')\<rparr>,
         \<lparr>text_of = js ''a'', category_of = Some (js ''Z'')\<rparr>,
         \<lparr>text_of = js '' A'', category_of = Some (js ''Z'')\<rparr>]"
  have h1: "distinct (map (\<lambda>q. normalizeText id (text_of q)) (quotes ?w))" by code_simp
  have h2: "distinct (map (\<lambda>sq. normalizeText id (text_of sq))
         (filter (\<lambda>sq. normalizeText id (text_of sq) \<noteq> [] \<and>
                       normalizeText id (text_of sq) \<notin>
                         (\<lambda>q. normalizeText id (text_of q)) ` set (quotes ?w))
            ?sqs))"
    by code_simp
  have l: "quotes (snd (mergeWithServer id ?sqs ?w)) =
      [\<lparr>text_of = js ''A'', category_of = Some (js ''Z'')\<rparr>,
       \<lparr>text_of = js ''B'', category_of = Some (js ''Y'')\<rparr>,
       \<lparr>text_of = js ''C'', category_of = Some (js ''Z'')\<rparr>]"
    by code_simp
  have "distinct (map (\<lambda>q. normalizeText id (text_of q)) (quotes (snd (mergeWithServer id ?sqs ?w))))"
    using merge_preserves_unique_texts [of ?w id ?sqs] h1 h2 by blast
  then show ?thesis using l by simp
qed

text \<open>
  The claim as stated fails in two ways. A duplicate that exists before the pass is kept:
  the store with the texts A and a still has both after a pass. And a pass makes a
  duplicate in a store that had none, when a text that is absent from the store occurs
  twice in the snapshot: the map is not extended when a record is appended, so the
  records B and b are both appended to the empty store.
\<close>

theorem merge_keeps_duplicates_counterexample:
  "quotes (snd (mergeWithServer id [\<lparr>text_of = js ''A'', category_of = Some (js ''Y'')\<rparr>]
        \<lparr>quotes = [\<lparr>text_of = js ''A'', category_of = Some (js ''X'')\<rparr>,
                    \<lparr>text_of = js ''a'', category_of = Some (js ''X'')\<rparr>],
           effects = []\<rparr>)) =
     [\<lparr>text_of = js ''A'', category_of = Some (js ''X'')\<rparr>,
      \<lparr>text_of = js ''a'', category_of = Some (js ''Y'')\<rparr>]
   \<and> normalizeText id (js ''A'') = normalizeText id (js ''a'')
   \<and> quotes (snd (mergeWithServer id
        [\<lparr>text_of = js ''B'', category_of = Some (js ''Y'')\<rparr>,
         \<lparr>text_of = js ''b'', category_of = Some (js ''Y'')\<rparr>]
        \<lparr>quotes = [], effects = []\<rparr>)) =
     [\<lparr>text_of = js ''B'', category_of = Some (js ''Y'')\<rparr>,
      \<lparr>text_of = js ''b'', category_of = Some (js ''Y'')\<rparr>]
   \<and> normalizeText id (js ''B'') = normalizeText id (js ''b'')"
  by code_simp

section \<open>The join key: trimming and lower-casing\<close>

lemma dropWhile_all: "list_all P xs \<Longrightarrow> dropWhile P (xs @ ys) = dropWhile P ys"
  by (induction xs) simp_all

lemma dropWhile_hd: "xs \<noteq> [] \<Longrightarrow> \<not> P (hd xs) \<Longrightarrow> dropWhile P xs = xs"
  by (cases xs) simp_all

lemma trim_core:
  assumes l: "list_all is_space l" and r: "list_all is_space r"
    and c: "c = [] \<or> \<not> is_space (hd c) \<and> \<not> is_space (last c)"
  shows "trim (l @ c @ r) = c"
proof (cases "c = []")
  case True
  have "list_all is_space (l @ r)" using l r by simp
  then have "dropWhile is_space ((l @ r) @ []) = dropWhile is_space []"
    by (rule dropWhile_all)
  then have e: "dropWhile is_space (l @ [] @ r) = []"
    by (simp only: append_Nil append_Nil2 dropWhile.simps)
  show ?thesis unfolding True trim_def e by simp
next
  case False
  then have h: "\<not> is_space (hd c)" and t: "\<not> is_space (last c)" using c by simp_all
  have "dropWhile is_space (l @ c @ r) = dropWhile is_space (c @ r)"
    using l by (rule dropWhile_all)
  also have "\<dots> = c @ r"
    using False h by (intro dropWhile_hd) simp_all
  finally have d1: "dropWhile is_space (l @ c @ r) = c @ r" .
  have "dropWhile is_space (rev (c @ r)) = dropWhile is_space (rev r @ rev c)" by simp
  also have "\<dots> = dropWhile is_space (rev c)"
    using r by (intro dropWhile_all) simp
  also have "\<dots> = rev c"
    using False t by (intro dropWhile_hd) (simp_all add: hd_rev)
  finally have "dropWhile is_space (rev (c @ r)) = rev c" .
  then show ?thesis using d1 by (simp add: trim_def)
qed

lemma trim_decomposition:
  "\<exists>l c r. t = l @ c @ r \<and> list_all is_space l \<and> list_all is_space r \<and>
     (c = [] \<or> \<not> is_space (hd c) \<and> \<not> is_space (last c))"
proof -
  let ?l = "takeWhile is_space t"
  let ?m = "dropWhile is_space t"
  let ?r = "rev (takeWhile is_space (rev ?m))"
  let ?c = "rev (dropWhile is_space (rev ?m))"
  have m: "?m = ?c @ ?r"
    by (metis rev_append rev_rev_ident takeWhile_dropWhile_id)
  have t: "t = ?l @ ?c @ ?r"
  proof -
    have "t = ?l @ ?m" by simp
    then show ?thesis using m by simp
  qed
  have sl: "list_all is_space ?l"
    by (simp add: list_all_iff) (meson set_takeWhileD)
  have sr: "list_all is_space ?r"
    by (simp add: list_all_iff) (meson set_takeWhileD)
  have ends: "\<not> is_space (hd ?c) \<and> \<not> is_space (last ?c)" if ne: "?c \<noteq> []"
  proof
    have "?m \<noteq> []" using ne m by (metis append_is_Nil_conv)
    then have "\<not> is_space (hd ?m)" by (rule hd_dropWhile)
    moreover have "hd ?m = hd ?c" using m ne by (metis hd_append2)
    ultimately show "\<not> is_space (hd ?c)" by simp
    have "dropWhile is_space (rev ?m) \<noteq> []" using ne by simp
    then have "\<not> is_space (hd (dropWhile is_space (rev ?m)))" by (rule hd_dropWhile)
    then show "\<not> is_space (last ?c)" using ne by (simp add: last_rev)
  qed
  show ?thesis using t sl sr ends by blast
qed

lemma is_space_table:
  "is_space u \<longleftrightarrow>
     u \<in> {9, 10, 11, 12, 13, 32, 160, 5760, 8232, 8233, 8239, 8287, 12288, 65279} \<or>
     8192 \<le> u \<and> u \<le> 8202"
  by (auto simp: is_space_def)

lemma toLowerCase_latin1:
  assumes "list_all (\<lambda>u. u < 256) s"
  shows "length (toLowerCase lc s) = length s \<and>
     (\<forall>i<length s. toLowerCase lc s ! i =
        (if 65 \<le> s ! i \<and> s ! i \<le> 90 \<or> 192 \<le> s ! i \<and> s ! i \<le> 222 \<and> s ! i \<noteq> 215
         then s ! i + 32 else s ! i))"
  using assms by (simp add: toLowerCase_def lower_latin1_def)

text \<open>
  C5. The join of \<^verbatim>\<open>mergeWithServer\<close> is on the trimmed, lower-cased text. The remote
  records that are added are exactly those whose normalized text is not empty and equals
  the normalized text of no local quote, and the array grows by exactly these; every
  other record is matched with a local quote or skipped. The normalized text of a text
  written as white space, a core, white space (the core empty, or with no white space at
  either end; every text has this form) is the lower-cased core. White space is TAB, LF,
  VT, FF, CR, SPACE, NBSP, U+1680, U+2000 to U+200A, U+2028, U+2029, U+202F, U+205F,
  U+3000 and U+FEFF. Lower-casing a text of code units below 256 keeps its length and
  moves A to Z and U+00C0 to U+00DE, without U+00D7, up by 32; on any other text it is
  the lower-casing of the engine. The texts \<^verbatim>\<open>" Hello "\<close> and \<^verbatim>\<open>"hello"\<close> have the
  same normalized text.
\<close>

theorem join_on_normalized_text:
  "added (fst (mergeWithServer lc serverQuotes w)) =
     length (filter (\<lambda>sq. normalizeText lc (text_of sq) \<noteq> [] \<and>
                         normalizeText lc (text_of sq) \<notin>
                           (\<lambda>q. normalizeText lc (text_of q)) ` set (quotes w))
               serverQuotes)
   \<and> length (quotes (snd (mergeWithServer lc serverQuotes w))) =
       length (quotes w) + added (fst (mergeWithServer lc serverQuotes w))
   \<and> (list_all is_space l \<and> list_all is_space r \<and>
       (c = [] \<or> \<not> is_space (hd c) \<and> \<not> is_space (last c)) \<longrightarrow>
       normalizeText lc (l @ c @ r) = toLowerCase lc c)
   \<and> (\<exists>l c r. t = l @ c @ r \<and> list_all is_space l \<and> list_all is_space r \<and>
         (c = [] \<or> \<not> is_space (hd c) \<and> \<not> is_space (last c)))
   \<and> (is_space u \<longleftrightarrow>
         u \<in> {9, 10, 11, 12, 13, 32, 160, 5760, 8232, 8233, 8239, 8287, 12288, 65279} \<or>
         8192 \<le> u \<and> u \<le> 8202)
   \<and> (list_all (\<lambda>u. u < 256) s \<longrightarrow>
         length (toLowerCase lc s) = length s \<and>
         (\<forall>i<length s. toLowerCase lc s ! i =
            (if 65 \<le> s ! i \<and> s ! i \<le> 90 \<or> 192 \<le> s ! i \<and> s ! i \<le> 222 \<and> s ! i \<noteq> 215
             then s ! i + 32 else s ! i)))
   \<and> (\<not> list_all (\<lambda>u. u < 256) s \<longrightarrow> toLowerCase lc s = lc s)
   \<and> normalizeText lc (js '' Hello '') = normalizeText lc (js ''hello'')"
proof (intro conjI impI)
  show "added (fst (mergeWithServer lc serverQuotes w)) =
     length (filter (\<lambda>sq. normalizeText lc (text_of sq) \<noteq> [] \<and>
                         normalizeText lc (text_of sq) \<notin>
                           (\<lambda>q. normalizeText lc (text_of q)) ` set (quotes w))
               serverQuotes)"
    by (simp add: mergeWithServer_details merge_loop_def fold_merge_added no_details_def
        localMap_of_None)
next
  have bound: "\<forall>k i. localMap_of lc (quotes w) k = Some i \<longrightarrow> i < length (quotes w)"
    using localMap_of_bound by blast
  obtain us where us:
    "fst (fold (merge_record lc (localMap_of lc (quotes w))) serverQuotes (quotes w, no_details)) =
       us @ map server_copy (filter (is_new lc (localMap_of lc (quotes w))) serverQuotes)"
    "map text_of us = map text_of (quotes w)"
    using fold_merge_shape [OF bound, of lc serverQuotes no_details] by blast
  have "length us = length (quotes w)" using us(2) by (metis length_map)
  then show "length (quotes (snd (mergeWithServer lc serverQuotes w))) =
       length (quotes w) + added (fst (mergeWithServer lc serverQuotes w))"
    using us(1)
    by (simp add: mergeWithServer_quotes mergeWithServer_details merge_loop_def fold_merge_added
        no_details_def)
next
  assume "list_all is_space l \<and> list_all is_space r \<and>
       (c = [] \<or> \<not> is_space (hd c) \<and> \<not> is_space (last c))"
  then have "trim (l @ c @ r) = c" by (intro trim_core) simp_all
  then show "normalizeText lc (l @ c @ r) = toLowerCase lc c"
    by (simp add: normalizeText_def)
next
  show "\<exists>l c r. t = l @ c @ r \<and> list_all is_space l \<and> list_all is_space r \<and>
         (c = [] \<or> \<not> is_space (hd c) \<and> \<not> is_space (last c))"
    by (rule trim_decomposition)
next
  show "is_space u \<longleftrightarrow>
         u \<in> {9, 10, 11, 12, 13, 32, 160, 5760, 8232, 8233, 8239, 8287, 12288, 65279} \<or>
         8192 \<le> u \<and> u \<le> 8202"
    by (rule is_space_table)
next
  assume a: "list_all (\<lambda>u. u < 256) s"
  show "length (toLowerCase lc s) = length s"
    using toLowerCase_latin1 [OF a] by simp
  show "\<forall>i<length s. toLowerCase lc s ! i =
            (if 65 \<le> s ! i \<and> s ! i \<le> 90 \<or> 192 \<le> s ! i \<and> s ! i \<le> 222 \<and> s ! i \<noteq> 215
             then s ! i + 32 else s ! i)"
    using toLowerCase_latin1 [OF a] by simp
next
  assume "\<not> list_all (\<lambda>u. u < 256) s"
  then show "toLowerCase lc s = lc s" by (simp add: toLowerCase_def)
next
  show "normalizeText lc (js '' Hello '') = normalizeText lc (js ''hello'')"
    by (simp add: normalizeText_def toLowerCase_def trim_def is_space_def lower_latin1_def js_def)
qed

text \<open>
  The local quote \<^verbatim>\<open>" Hello "\<close> and the remote record \<^verbatim>\<open>"hello"\<close>: nothing is added
  and nothing changes. The local quote \<^verbatim>\<open>"Hello"\<close> and the remote records
  \<^verbatim>\<open>"Hallo"\<close>, \<^verbatim>\<open>"hel lo"\<close> and \<^verbatim>\<open>"HELLO "\<close>: the first two are added (white
  space inside a text is kept), the third is not. A text with TAB, two capital letters
  with an accent and NBSP, and a text between U+3000 and U+FEFF, are trimmed and
  lower-cased; the multiplication sign and the sharp s are not letters to lower.
\<close>

theorem join_on_normalized_text_witness:
  "mergeWithServer id [\<lparr>text_of = js ''hello'', category_of = Some (js ''X'')\<rparr>]
        \<lparr>quotes = [\<lparr>text_of = js '' Hello '', category_of = Some (js ''X'')\<rparr>], effects = []\<rparr> =
      (\<lparr>added = 0, updated = 0, conflictsResolved = 0\<rparr>,
       \<lparr>quotes = [\<lparr>text_of = js '' Hello '', category_of = Some (js ''X'')\<rparr>], effects = []\<rparr>)
   \<and> added (fst (mergeWithServer id
        [\<lparr>text_of = js ''Hallo'', category_of = Some (js ''X'')\<rparr>,
         \<lparr>text_of = js ''hel lo'', category_of = Some (js ''X'')\<rparr>,
         \<lparr>text_of = js ''HELLO '', category_of = Some (js ''X'')\<rparr>]
        \<lparr>quotes = [\<lparr>text_of = js ''Hello'', category_of = Some (js ''X'')\<rparr>], effects = []\<rparr>)) = 2
   \<and> normalizeText id [9, 201, 84, 201, 160] = [233, 116, 233]
   \<and> normalizeText id [12288, 72, 105, 65279] = js ''hi''
   \<and> toLowerCase id [64, 65, 90, 91, 192, 215, 222, 223] = [64, 97, 122, 91, 224, 215, 254, 223]"
proof -
  let ?w1 = "\<lparr>quotes = [\<lparr>text_of = js '' Hello '', category_of = Some (js ''X'')\<rparr>], effects = []\<rparr>"
  let ?s1 = "[\<lparr>text_of = js ''hello'', category_of = Some (js ''X'')\<rparr>]"
  let ?w2 = "\<lparr>quotes = [\<lparr>text_of = js ''Hello'', category_of = Some (js ''X'')\<rparr>], effects = []\<rparr>"
  let ?s2 = "[\<lparr>text_of = js ''Hallo'', category_of = Some (js ''X'')\<rparr>,
         \<lparr>text_of = js ''hel lo'', category_of = Some (js ''X'')\<rparr>,
         \<lparr>text_of = js ''HELLO '', category_of = Some (js ''X'')\<rparr>]"
  have e1: "mergeWithServer id ?s1 ?w1 = (\<lparr>added = 0, updated = 0, conflictsResolved = 0\<rparr>, ?w1)"
    by code_simp
  have f2: "length (filter (\<lambda>sq. normalizeText id (text_of sq) \<noteq> [] \<and>
                         normalizeText id (text_of sq) \<notin>
                           (\<lambda>q. normalizeText id (text_of q)) ` set (quotes ?w2)) ?s2) = 2"
    by code_simp
  have a2: "added (fst (mergeWithServer id ?s2 ?w2)) = 2"
    using join_on_normalized_text [where lc = id and serverQuotes = ?s2 and w = ?w2] f2 by simp
  have sp: "is_space 9" "is_space 160" "is_space 12288" "is_space 65279"
    "\<not> is_space 201" "\<not> is_space 72" "\<not> is_space 105"
    by (simp_all add: is_space_def)
  have t3: "normalizeText id ([9] @ [201, 84, 201] @ [160]) = toLowerCase id [201, 84, 201]"
    using join_on_normalized_text [where lc = id and l = "[9]" and c = "[201, 84, 201]" and r = "[160]"] sp
    by simp
  have t4: "normalizeText id ([12288] @ [72, 105] @ [65279]) = toLowerCase id [72, 105]"
    using join_on_normalized_text [where lc = id and l = "[12288]" and c = "[72, 105]" and r = "[65279]"] sp
    by simp
  have l3: "toLowerCase id [201, 84, 201] = [233, 116, 233]"
    by (simp add: toLowerCase_def lower_latin1_def)
  have l4: "toLowerCase id [72, 105] = js ''hi''"
    by (simp add: toLowerCase_def lower_latin1_def js_def)
  have l5: "toLowerCase id [64, 65, 90, 91, 192, 215, 222, 223] = [64, 97, 122, 91, 224, 215, 254, 223]"
    by (simp add: toLowerCase_def lower_latin1_def)
  show ?thesis using e1 a2 t3 t4 l3 l4 l5 by simp
qed

section \<open>A failed fetch aborts the sync cycle\<close>

lemma setStatus_quotes: "quotes (setStatus e st w) = quotes w"
  by (simp add: setStatus_def emit_def)

lemma doSync_failed:
  "fetchServerQuotes toStr r = Inl err \<Longrightarrow>
   doSync lc showNotification e toStr r w =
     (None, w\<lparr>effects := effects w @ (if statusEl e then [SetStatus Syncing, SetStatus SyncFailed] else [])\<rparr>)"
  by (simp add: doSync_def setStatus_def emit_def)

lemma map_posts_fails:
  "(\<exists>x. map_posts toStr ps = Inl x) \<longleftrightarrow>
     (\<exists>p\<in>set ps. p = JNull \<or> (\<exists>x. post_to_quote toStr p = Inl x))"
  by (induction ps) (auto split: sum.splits)

lemma js_String_fails:
  "(\<exists>x. js_String toStr v = Inl x) \<longleftrightarrow> (\<forall>s. v \<noteq> JStr s) \<and> (\<exists>x. toStr v = Inl x)"
  by (cases v) (simp_all add: js_String_def)

lemma post_to_quote_fails:
  "(\<exists>x. post_to_quote toStr p = Inl x) \<longleftrightarrow>
     (\<exists>t. js_prop p (js ''title'') = Some t \<and> truthy t \<and> (\<forall>s. t \<noteq> JStr s) \<and> (\<exists>x. toStr t = Inl x))
     \<or> (\<exists>u. js_prop p (js ''userId'') = Some u \<and> (\<forall>s. u \<noteq> JStr s) \<and> (\<exists>x. toStr u = Inl x))"
proof -
  let ?T = "case js_prop p (js ''title'') of None \<Rightarrow> Inr []
            | Some t \<Rightarrow> if truthy t then js_String toStr t else Inr []"
  let ?U = "case js_prop p (js ''userId'') of None \<Rightarrow> Inr (js ''undefined'')
            | Some u \<Rightarrow> js_String toStr u"
  have T: "(\<exists>x. ?T = Inl x) \<longleftrightarrow>
      (\<exists>t. js_prop p (js ''title'') = Some t \<and> truthy t \<and> (\<forall>s. t \<noteq> JStr s) \<and> (\<exists>x. toStr t = Inl x))"
    using js_String_fails [of toStr] by (cases "js_prop p (js ''title'')") auto
  have U: "(\<exists>x. ?U = Inl x) \<longleftrightarrow>
      (\<exists>u. js_prop p (js ''userId'') = Some u \<and> (\<forall>s. u \<noteq> JStr s) \<and> (\<exists>x. toStr u = Inl x))"
    using js_String_fails [of toStr] by (cases "js_prop p (js ''userId'')") auto
  have "(\<exists>x. post_to_quote toStr p = Inl x) \<longleftrightarrow> (\<exists>x. ?T = Inl x) \<or> (\<exists>x. ?U = Inl x)"
    unfolding post_to_quote_def by (cases ?T; cases ?U) simp_all
  then show ?thesis unfolding T U .
qed

text \<open>
  The catch block of \<^verbatim>\<open>doSync\<close> is also reached after a successful fetch: when the
  merge has changed the array and \<^verbatim>\<open>populateCategories\<close> throws, \<^verbatim>\<open>doSync\<close> returns
  \<^verbatim>\<open>null\<close> on the merged and saved array. So \<^verbatim>\<open>null\<close> alone does not tell that the
  array is untouched.
\<close>

lemma doSync_null_after_merge:
  assumes "fetchServerQuotes toStr r = Inr serverQuotes"
    and "added (fst (mergeWithServer lc serverQuotes (setStatus e Syncing w))) \<noteq> 0 \<or>
         updated (fst (mergeWithServer lc serverQuotes (setStatus e Syncing w))) \<noteq> 0"
    and "populateCategories_throws e"
  shows "doSync lc showNotification e toStr r w =
     (None, setStatus e SyncFailed (snd (mergeWithServer lc serverQuotes (setStatus e Syncing w))))"
  using assms by (simp add: doSync_def Let_def)

lemma doSync_null_after_merge_example:
  "doSync id True \<lparr>statusEl = False, categoryFilter = True, getItemThrows = True\<rparr>
       (\<lambda>v. Inr (js ''1''))
       (Response True (Some (JArr [JObj [(js ''title'', JStr (js ''New'')), (js ''userId'', JNum 1)]])))
       \<lparr>quotes = [], effects = []\<rparr> =
     (None, \<lparr>quotes = [\<lparr>text_of = js ''New'', category_of = Some (js ''Server-1'')\<rparr>],
             effects = [SaveQuotes [\<lparr>text_of = js ''New'', category_of = Some (js ''Server-1'')\<rparr>],
                        PopulateCategories [js ''Server-1'']]\<rparr>)"
  by code_simp

text \<open>
  C6. If \<^verbatim>\<open>fetchServerQuotes\<close> throws, \<^verbatim>\<open>doSync\<close> returns \<^verbatim>\<open>null\<close> and leaves the quote
  array as it was: nothing is merged and nothing is saved, and the only effects are the
  two status texts when the status element exists. \<^verbatim>\<open>fetchServerQuotes\<close> throws when
  the fetch is rejected, when the response is not ok, when the body is not JSON, when the
  payload is not an array, and, on an array, exactly when one of the posts is \<^verbatim>\<open>null\<close>
  or its conversion throws; the conversion of a post throws exactly when its title is
  truthy and not a string and \<^verbatim>\<open>String\<close> throws on it, or its \<^verbatim>\<open>userId\<close> is present
  and not a string and the template throws on it.
\<close>

theorem doSync_aborts_on_fetch_failure:
  "(fetchServerQuotes toStr r = Inl err \<longrightarrow>
      doSync lc showNotification e toStr r w =
        (None, w\<lparr>effects := effects w @
                   (if statusEl e then [SetStatus Syncing, SetStatus SyncFailed] else [])\<rparr>)
      \<and> quotes (snd (doSync lc showNotification e toStr r w)) = quotes w)
   \<and> fetchServerQuotes toStr NetworkFailure = Inl FetchRejected
   \<and> fetchServerQuotes toStr (Response False body) = Inl ResponseNotOk
   \<and> fetchServerQuotes toStr (Response True None) = Inl JsonRejected
   \<and> ((\<forall>xs. data \<noteq> JArr xs) \<longrightarrow> fetchServerQuotes toStr (Response True (Some data)) = Inl TypeError)
   \<and> ((\<exists>x. fetchServerQuotes toStr (Response True (Some (JArr ps))) = Inl x) \<longleftrightarrow>
        (\<exists>p\<in>set ps. p = JNull \<or> (\<exists>x. post_to_quote toStr p = Inl x)))
   \<and> ((\<exists>x. post_to_quote toStr p = Inl x) \<longleftrightarrow>
        (\<exists>t. js_prop p (js ''title'') = Some t \<and> truthy t \<and> (\<forall>s. t \<noteq> JStr s) \<and>
             (\<exists>x. toStr t = Inl x))
        \<or> (\<exists>u. js_prop p (js ''userId'') = Some u \<and> (\<forall>s. u \<noteq> JStr s) \<and>
             (\<exists>x. toStr u = Inl x)))"
proof (intro conjI impI)
  assume f: "fetchServerQuotes toStr r = Inl err"
  show "doSync lc showNotification e toStr r w =
        (None, w\<lparr>effects := effects w @
                   (if statusEl e then [SetStatus Syncing, SetStatus SyncFailed] else [])\<rparr>)"
    by (rule doSync_failed [OF f])
  show "quotes (snd (doSync lc showNotification e toStr r w)) = quotes w"
    by (simp add: doSync_failed [OF f])
next
  show "fetchServerQuotes toStr NetworkFailure = Inl FetchRejected"
    by (simp add: fetchServerQuotes_def)
  show "fetchServerQuotes toStr (Response False body) = Inl ResponseNotOk"
    by (simp add: fetchServerQuotes_def)
  show "fetchServerQuotes toStr (Response True None) = Inl JsonRejected"
    by (simp add: fetchServerQuotes_def)
next
  assume "\<forall>xs. data \<noteq> JArr xs"
  then show "fetchServerQuotes toStr (Response True (Some data)) = Inl TypeError"
    by (cases data) (simp_all add: fetchServerQuotes_def)
next
  show "(\<exists>x. fetchServerQuotes toStr (Response True (Some (JArr ps))) = Inl x) \<longleftrightarrow>
        (\<exists>p\<in>set ps. p = JNull \<or> (\<exists>x. post_to_quote toStr p = Inl x))"
    by (simp add: fetchServerQuotes_def map_posts_fails)
next
  show "(\<exists>x. post_to_quote toStr p = Inl x) \<longleftrightarrow>
        (\<exists>t. js_prop p (js ''title'') = Some t \<and> truthy t \<and> (\<forall>s. t \<noteq> JStr s) \<and>
             (\<exists>x. toStr t = Inl x))
        \<or> (\<exists>u. js_prop p (js ''userId'') = Some u \<and> (\<forall>s. u \<noteq> JStr s) \<and>
             (\<exists>x. toStr u = Inl x))"
    by (rule post_to_quote_fails)
qed

text \<open>
  On a store with one quote, with the status element present, and with a \<^verbatim>\<open>String\<close> that
  throws on objects: a rejected fetch, a payload whose post has the title
  \<^verbatim>\<open>{"toString": 1}\<close>, and a payload whose second post is \<^verbatim>\<open>null\<close> all end in \<^verbatim>\<open>null\<close> with
  the store as it was and nothing saved. The payload with the one well-formed post ends in
  a summary and a store with the new quote.
\<close>

theorem doSync_aborts_on_fetch_failure_witness:
  "doSync id True \<lparr>statusEl = True, categoryFilter = True, getItemThrows = False\<rparr>
       (\<lambda>v. case v of JObj fs \<Rightarrow> Inl TypeError | _ \<Rightarrow> Inr (js ''1''))
       NetworkFailure
       \<lparr>quotes = [\<lparr>text_of = js ''A'', category_of = Some (js ''X'')\<rparr>], effects = []\<rparr> =
     (None, \<lparr>quotes = [\<lparr>text_of = js ''A'', category_of = Some (js ''X'')\<rparr>],
             effects = [SetStatus Syncing, SetStatus SyncFailed]\<rparr>)
   \<and> fetchServerQuotes (\<lambda>v. case v of JObj fs \<Rightarrow> Inl TypeError | _ \<Rightarrow> Inr (js ''1''))
       (Response True (Some (JArr [JObj [(js ''title'', JObj [(js ''toString'', JNum 1)]),
                                        (js ''userId'', JNum 1)]]))) = Inl TypeError
   \<and> doSync id True \<lparr>statusEl = True, categoryFilter = True, getItemThrows = False\<rparr>
       (\<lambda>v. case v of JObj fs \<Rightarrow> Inl TypeError | _ \<Rightarrow> Inr (js ''1''))
       (Response True (Some (JArr [JObj [(js ''title'', JObj [(js ''toString'', JNum 1)]),
                                        (js ''userId'', JNum 1)]])))
       \<lparr>quotes = [\<lparr>text_of = js ''A'', category_of = Some (js ''X'')\<rparr>], effects = []\<rparr> =
     (None, \<lparr>quotes = [\<lparr>text_of = js ''A'', category_of = Some (js ''X'')\<rparr>],
             effects = [SetStatus Syncing, SetStatus SyncFailed]\<rparr>)
   \<and> fetchServerQuotes (\<lambda>v. case v of JObj fs \<Rightarrow> Inl TypeError | _ \<Rightarrow> Inr (js ''1''))
       (Response True (Some (JArr [JObj [(js ''title'', JStr (js ''New'')), (js ''userId'', JNum 1)],
                                   JNull]))) = Inl TypeError
   \<and> doSync id True \<lparr>statusEl = True, categoryFilter = True, getItemThrows = False\<rparr>
       (\<lambda>v. case v of JObj fs \<Rightarrow> Inl TypeError | _ \<Rightarrow> Inr (js ''1''))
       (Response True (Some (JArr [JObj [(js ''title'', JStr (js ''New'')), (js ''userId'', JNum 1)],
                                   JNull])))
       \<lparr>quotes = [\<lparr>text_of = js ''A'', category_of = Some (js ''X'')\<rparr>], effects = []\<rparr> =
     (None, \<lparr>quotes = [\<lparr>text_of = js ''A'', category_of = Some (js ''X'')\<rparr>],
             effects = [SetStatus Syncing, SetStatus SyncFailed]\<rparr>)
   \<and> fst (doSync id True \<lparr>statusEl = True, categoryFilter = True, getItemThrows = False\<rparr>
       (\<lambda>v. case v of JObj fs \<Rightarrow> Inl TypeError | _ \<Rightarrow> Inr (js ''1''))
       (Response True (Some (JArr [JObj [(js ''title'', JStr (js ''New'')), (js ''userId'', JNum 1)]])))
       \<lparr>quotes = [\<lparr>text_of = js ''A'', category_of = Some (js ''X'')\<rparr>], effects = []\<rparr>) =
     Some \<lparr>added = 1, updated = 0, conflictsResolved = 0\<rparr>
   \<and> quotes (snd (doSync id True \<lparr>statusEl = True, categoryFilter = True, getItemThrows = False\<rparr>
       (\<lambda>v. case v of JObj fs \<Rightarrow> Inl TypeError | _ \<Rightarrow> Inr (js ''1''))
       (Response True (Some (JArr [JObj [(js ''title'', JStr (js ''New'')), (js ''userId'', JNum 1)]])))
       \<lparr>quotes = [\<lparr>text_of = js ''A'', category_of = Some (js ''X'')\<rparr>], effects = []\<rparr>)) =
     [\<lparr>text_of = js ''A'', category_of = Some (js ''X'')\<rparr>,
      \<lparr>text_of = js ''New'', category_of = Some (js ''Server-1'')\<rparr>]"
proof -
  let ?e = "\<lparr>statusEl = True, categoryFilter = True, getItemThrows = False\<rparr>"
  let ?ts = "\<lambda>v. case v of JObj fs \<Rightarrow> Inl TypeError | _ \<Rightarrow> Inr (js ''1'')"
  let ?w = "\<lparr>quotes = [\<lparr>text_of = js ''A'', category_of = Some (js ''X'')\<rparr>], effects = []\<rparr>"
  let ?r2 = "Response True (Some (JArr [JObj [(js ''title'', JObj [(js ''toString'', JNum 1)]),
                                        (js ''userId'', JNum 1)]]))"
  let ?r3 = "Response True (Some (JArr [JObj [(js ''title'', JStr (js ''New'')), (js ''userId'', JNum 1)],
                                   JNull]))"
  let ?r4 = "Response True (Some (JArr [JObj [(js ''title'', JStr (js ''New'')), (js ''userId'', JNum 1)]]))"
  have f1: "fetchServerQuotes ?ts NetworkFailure = Inl FetchRejected"
    using doSync_aborts_on_fetch_failure [where toStr = ?ts] by simp
  have f2: "fetchServerQuotes ?ts ?r2 = Inl TypeError" by code_simp
  have f3: "fetchServerQuotes ?ts ?r3 = Inl TypeError" by code_simp
  have d1: "doSync id True ?e ?ts NetworkFailure ?w =
      (None, \<lparr>quotes = [\<lparr>text_of = js ''A'', category_of = Some (js ''X'')\<rparr>],
              effects = [SetStatus Syncing, SetStatus SyncFailed]\<rparr>)"
    using doSync_aborts_on_fetch_failure
      [where toStr = ?ts and r = NetworkFailure and err = FetchRejected and lc = id
         and showNotification = True and e = ?e and w = ?w] f1
    by simp
  have d2: "doSync id True ?e ?ts ?r2 ?w =
      (None, \<lparr>quotes = [\<lparr>text_of = js ''A'', category_of = Some (js ''X'')\<rparr>],
              effects = [SetStatus Syncing, SetStatus SyncFailed]\<rparr>)"
    using doSync_aborts_on_fetch_failure
      [where toStr = ?ts and r = ?r2 and err = TypeError and lc = id
         and showNotification = True and e = ?e and w = ?w] f2
    by simp
  have d3: "doSync id True ?e ?ts ?r3 ?w =
      (None, \<lparr>quotes = [\<lparr>text_of = js ''A'', category_of = Some (js ''X'')\<rparr>],
              effects = [SetStatus Syncing, SetStatus SyncFailed]\<rparr>)"
    using doSync_aborts_on_fetch_failure
      [where toStr = ?ts and r = ?r3 and err = TypeError and lc = id
         and showNotification = True and e = ?e and w = ?w] f3
    by simp
  have d4: "fst (doSync id True ?e ?ts ?r4 ?w) = Some \<lparr>added = 1, updated = 0, conflictsResolved = 0\<rparr>"
    by code_simp
  have d5: "quotes (snd (doSync id True ?e ?ts ?r4 ?w)) =
     [\<lparr>text_of = js ''A'', category_of = Some (js ''X'')\<rparr>,
      \<lparr>text_of = js ''New'', category_of = Some (js ''Server-1'')\<rparr>]"
    by code_simp
  show ?thesis
    using f2 f3 d1 d2 d3 d4 d5 by simp
qed

section \<open>Loading malformed persisted data\<close>

lemma truthy_iff:
  "truthy v \<longleftrightarrow> \<not> (v = JNull \<or> v = JBool False \<or> v = JNum 0 \<or> v = JStr [])"
  by (cases v) auto

lemma load_entry_cases:
  "load_entry q =
     (case q of
        JObj fs \<Rightarrow>
          (case map_of fs (js ''text'') of
             Some (JStr t) \<Rightarrow>
               [\<lparr>text_of = t,
                 category_of =
                   (case map_of fs (js ''category'') of
                      None \<Rightarrow> JStr (js ''Uncategorized'')
                    | Some v \<Rightarrow>
                        if v = JNull \<or> v = JBool False \<or> v = JNum 0 \<or> v = JStr []
                        then JStr (js ''Uncategorized'') else v)\<rparr>]
           | _ \<Rightarrow> [])
      | _ \<Rightarrow> [])"
proof (cases q)
  case (JObj fs)
  show ?thesis
  proof (cases "map_of fs (js ''text'')")
    case None
    then show ?thesis using JObj by (simp add: load_entry_def)
  next
    case (Some x)
    show ?thesis
    proof (cases x)
      case (JStr t)
      show ?thesis
      proof (cases "map_of fs (js ''category'')")
        case None
        then show ?thesis
          using JObj Some JStr by (simp add: load_entry_def category_or_default_def)
      next
        case (Some v)
        then show ?thesis
          using JObj \<open>map_of fs (js ''text'') = Some x\<close> JStr truthy_iff [of v]
          by (simp add: load_entry_def category_or_default_def)
      qed
    qed (use JObj Some in \<open>simp_all add: load_entry_def\<close>)
  qed
qed (simp_all add: load_entry_def)

lemma load_entry_invalid:
  "\<forall>fs t. q = JObj fs \<longrightarrow> map_of fs (js ''text'') \<noteq> Some (JStr t) \<Longrightarrow> load_entry q = []"
  unfolding load_entry_cases by (auto split: jsval.splits option.splits)

lemma concat_load_entry_invalid:
  "\<forall>q\<in>set entries. \<forall>fs t. q = JObj fs \<longrightarrow> map_of fs (js ''text'') \<noteq> Some (JStr t) \<Longrightarrow>
   concat (map load_entry entries) = []"
  by (induction entries) (simp_all add: load_entry_invalid)

text \<open>
  C8, as the code has it. \<^verbatim>\<open>loadQuotes\<close> of \<^verbatim>\<open>script.js\<close> never throws. When the
  persisted item is missing, empty, not valid JSON, or valid JSON that is not an array,
  the store is left as it was. When it is an array, the store is emptied and refilled, in
  order, with one quote for each entry that is an object with a string \<^verbatim>\<open>text\<close>: the
  quote has that text and the \<^verbatim>\<open>category\<close> of the entry, or \<^verbatim>\<open>Uncategorized\<close> when the
  category is missing or falsy. An array that holds only values that are not objects, or
  entries without a string \<^verbatim>\<open>text\<close>, therefore leaves the store empty and not in its
  prior state. \<^verbatim>\<open>loadQuotes\<close> of the variant without try and catch throws the
  \<^verbatim>\<open>SyntaxError\<close> of \<^verbatim>\<open>JSON.parse\<close> on an item that is not valid JSON, and does the same
  as \<^verbatim>\<open>loadQuotes\<close> of \<^verbatim>\<open>script.js\<close> on every other item.
\<close>

theorem loadQuotes_malformed:
  "(\<exists>qs'. loadQuotes it qs = Inr qs')
   \<and> loadQuotes NoItem qs = Inr qs
   \<and> loadQuotes EmptyItem qs = Inr qs
   \<and> loadQuotes Unparsable qs = Inr qs
   \<and> ((\<forall>xs. parsed \<noteq> JArr xs) \<longrightarrow> loadQuotes (Parsed parsed) qs = Inr qs)
   \<and> loadQuotes (Parsed (JArr entries)) qs =
       Inr (concat (map (\<lambda>q. case q of
                JObj fs \<Rightarrow>
                  (case map_of fs (js ''text'') of
                     Some (JStr t) \<Rightarrow>
                       [\<lparr>text_of = t,
                         category_of =
                           (case map_of fs (js ''category'') of
                              None \<Rightarrow> JStr (js ''Uncategorized'')
                            | Some v \<Rightarrow>
                                if v = JNull \<or> v = JBool False \<or> v = JNum 0 \<or> v = JStr []
                                then JStr (js ''Uncategorized'') else v)\<rparr>]
                   | _ \<Rightarrow> [])
              | _ \<Rightarrow> []) entries))
   \<and> ((\<forall>q\<in>set entries. \<forall>fs t. q = JObj fs \<longrightarrow> map_of fs (js ''text'') \<noteq> Some (JStr t)) \<longrightarrow>
        loadQuotes (Parsed (JArr entries)) qs = Inr [])
   \<and> loadQuotes_unguarded Unparsable qs = Inl SyntaxError
   \<and> (it \<noteq> Unparsable \<longrightarrow> loadQuotes_unguarded it qs = loadQuotes it qs)"
proof (intro conjI impI)
  show "\<exists>qs'. loadQuotes it qs = Inr qs'"
    by (simp add: loadQuotes_def split: sum.splits)
  show "loadQuotes NoItem qs = Inr qs"
    by (simp add: loadQuotes_def loadQuotes_unguarded_def)
  show "loadQuotes EmptyItem qs = Inr qs"
    by (simp add: loadQuotes_def loadQuotes_unguarded_def)
  show "loadQuotes Unparsable qs = Inr qs"
    by (simp add: loadQuotes_def loadQuotes_unguarded_def)
  show "loadQuotes_unguarded Unparsable qs = Inl SyntaxError"
    by (simp add: loadQuotes_unguarded_def)
next
  assume "\<forall>xs. parsed \<noteq> JArr xs"
  then show "loadQuotes (Parsed parsed) qs = Inr qs"
    by (cases parsed) (simp_all add: loadQuotes_def loadQuotes_unguarded_def)
next
  have "loadQuotes (Parsed (JArr entries)) qs = Inr (concat (map load_entry entries))"
    by (simp add: loadQuotes_def loadQuotes_unguarded_def)
  also have "map load_entry entries = map (\<lambda>q. case q of
                JObj fs \<Rightarrow>
                  (case map_of fs (js ''text'') of
                     Some (JStr t) \<Rightarrow>
                       [\<lparr>text_of = t,
                         category_of =
                           (case map_of fs (js ''category'') of
                              None \<Rightarrow> JStr (js ''Uncategorized'')
                            | Some v \<Rightarrow>
                                if v = JNull \<or> v = JBool False \<or> v = JNum 0 \<or> v = JStr []
                                then JStr (js ''Uncategorized'') else v)\<rparr>]
                   | _ \<Rightarrow> [])
              | _ \<Rightarrow> []) entries"
    by (rule map_cong [OF refl]) (rule load_entry_cases)
  finally show "loadQuotes (Parsed (JArr entries)) qs =
       Inr (concat (map (\<lambda>q. case q of
                JObj fs \<Rightarrow>
                  (case map_of fs (js ''text'') of
                     Some (JStr t) \<Rightarrow>
                       [\<lparr>text_of = t,
                         category_of =
                           (case map_of fs (js ''category'') of
                              None \<Rightarrow> JStr (js ''Uncategorized'')
                            | Some v \<Rightarrow>
                                if v = JNull \<or> v = JBool False \<or> v = JNum 0 \<or> v = JStr []
                                then JStr (js ''Uncategorized'') else v)\<rparr>]
                   | _ \<Rightarrow> [])
              | _ \<Rightarrow> []) entries))" .
next
  assume "\<forall>q\<in>set entries. \<forall>fs t. q = JObj fs \<longrightarrow> map_of fs (js ''text'') \<noteq> Some (JStr t)"
  then show "loadQuotes (Parsed (JArr entries)) qs = Inr []"
    by (simp add: loadQuotes_def loadQuotes_unguarded_def concat_load_entry_invalid)
next
  assume "it \<noteq> Unparsable"
  then show "loadQuotes_unguarded it qs = loadQuotes it qs"
    by (cases it) (simp_all add: loadQuotes_def loadQuotes_unguarded_def split: jsval.splits)
qed

text \<open>
  On a store with one quote. The array of \<^verbatim>\<open>{"text":"B","category":"C"}\<close>, \<^verbatim>\<open>5\<close>,
  \<^verbatim>\<open>{"text":"D"}\<close>, \<^verbatim>\<open>{"text":"E","category":""}\<close>, \<^verbatim>\<open>{"text":7}\<close> and \<^verbatim>\<open>null\<close> loads the
  three quotes B, D and E, the last two in the default category. An item that is not valid
  JSON and an item that parses to an object leave the store alone. An array of a number, a
  string, \<^verbatim>\<open>null\<close> and an object without \<^verbatim>\<open>text\<close> empties it, in both variants.
\<close>

theorem loadQuotes_malformed_witness:
  "loadQuotes (Parsed (JArr
       [JObj [(js ''text'', JStr (js ''B'')), (js ''category'', JStr (js ''C''))],
        JNum 5,
        JObj [(js ''text'', JStr (js ''D''))],
        JObj [(js ''text'', JStr (js ''E'')), (js ''category'', JStr [])],
        JObj [(js ''text'', JNum 7)],
        JNull]))
     [\<lparr>text_of = js ''A'', category_of = JStr (js ''X'')\<rparr>] =
     Inr [\<lparr>text_of = js ''B'', category_of = JStr (js ''C'')\<rparr>,
          \<lparr>text_of = js ''D'', category_of = JStr (js ''Uncategorized'')\<rparr>,
          \<lparr>text_of = js ''E'', category_of = JStr (js ''Uncategorized'')\<rparr>]
   \<and> loadQuotes Unparsable [\<lparr>text_of = js ''A'', category_of = JStr (js ''X'')\<rparr>] =
     Inr [\<lparr>text_of = js ''A'', category_of = JStr (js ''X'')\<rparr>]
   \<and> loadQuotes (Parsed (JObj [(js ''text'', JStr (js ''B''))]))
       [\<lparr>text_of = js ''A'', category_of = JStr (js ''X'')\<rparr>] =
     Inr [\<lparr>text_of = js ''A'', category_of = JStr (js ''X'')\<rparr>]
   \<and> loadQuotes (Parsed (JArr [JNum 1, JStr (js ''x''), JNull, JObj [(js ''category'', JStr (js ''C''))]]))
       [\<lparr>text_of = js ''A'', category_of = JStr (js ''X'')\<rparr>] = Inr []
   \<and> loadQuotes_unguarded
       (Parsed (JArr [JNum 1, JStr (js ''x''), JNull, JObj [(js ''category'', JStr (js ''C''))]]))
       [\<lparr>text_of = js ''A'', category_of = JStr (js ''X'')\<rparr>] = Inr []"
proof -
  let ?qs = "[\<lparr>text_of = js ''A'', category_of = JStr (js ''X'')\<rparr>]"
  let ?good = "[JObj [(js ''text'', JStr (js ''B'')), (js ''category'', JStr (js ''C''))],
        JNum 5,
        JObj [(js ''text'', JStr (js ''D''))],
        JObj [(js ''text'', JStr (js ''E'')), (js ''category'', JStr [])],
        JObj [(js ''text'', JNum 7)],
        JNull]"
  let ?bad = "[JNum 1, JStr (js ''x''), JNull, JObj [(js ''category'', JStr (js ''C''))]]"
  let ?obj = "JObj [(js ''text'', JStr (js ''B''))]"
  have k: "js ''category'' \<noteq> js ''text''" "js ''text'' \<noteq> js ''category''"
    by simp_all
  have a: "loadQuotes (Parsed (JArr ?good)) ?qs =
     Inr [\<lparr>text_of = js ''B'', category_of = JStr (js ''C'')\<rparr>,
          \<lparr>text_of = js ''D'', category_of = JStr (js ''Uncategorized'')\<rparr>,
          \<lparr>text_of = js ''E'', category_of = JStr (js ''Uncategorized'')\<rparr>]"
    using loadQuotes_malformed [where entries = ?good and qs = ?qs] k by simp
  have b: "loadQuotes Unparsable ?qs = Inr ?qs"
    using loadQuotes_malformed [where qs = ?qs] by simp
  have c: "loadQuotes (Parsed ?obj) ?qs = Inr ?qs"
    using loadQuotes_malformed [where parsed = ?obj and qs = ?qs] by simp
  have d: "loadQuotes (Parsed (JArr ?bad)) ?qs = Inr []"
    using loadQuotes_malformed [where entries = ?bad and qs = ?qs] k by simp
  have e: "loadQuotes_unguarded (Parsed (JArr ?bad)) ?qs = loadQuotes (Parsed (JArr ?bad)) ?qs"
    using loadQuotes_malformed [where it = "Parsed (JArr ?bad)" and qs = ?qs] by simp
  show ?thesis using a b c d e by simp
qed

text \<open>
  The claim as stated fails on an array without a valid entry: the store with one quote
  is empty after the call, not in its prior state. It also fails for the variant without
  try and catch on an item that is not valid JSON: the call throws.
\<close>

theorem loadQuotes_malformed_counterexample:
  "loadQuotes (Parsed (JArr [JNum 1, JStr (js ''x'')]))
       [\<lparr>text_of = js ''A'', category_of = JStr (js ''X'')\<rparr>] = Inr []
   \<and> loadQuotes_unguarded (Parsed (JArr [JNum 1, JStr (js ''x'')]))
       [\<lparr>text_of = js ''A'', category_of = JStr (js ''X'')\<rparr>] = Inr []
   \<and> loadQuotes_unguarded Unparsable
       [\<lparr>text_of = js ''A'', category_of = JStr (js ''X'')\<rparr>] = Inl SyntaxError"
  by code_simp

end
